theory Spec2Isabelle
  imports Complex_Main "HOL-Library.Sublist"
begin

section \<open>The trading bot of \<^verbatim>\<open>swap.py\<close>\<close>

text \<open>
  The class \<^verbatim>\<open>TradingBot\<close> talks to three services (a chain RPC node, a swap gateway and a
  price API) and reads the clock. The embedding below keeps the bot's fields in a record,
  threads it through every method, and makes the outside world explicit:

  \<^item> an \<open>env\<close> gives the answer of the i-th call of each kind (clock, account info, SOL
    balance, price, swap gateway, transaction submission);
  \<^item> a \<open>world\<close> counts the calls made so far and keeps the trace of everything the bot did
    (requests with their answers, sleeps, log lines), in order. Its field \<open>invocations\<close>
    notes every call of \<^verbatim>\<open>execute_trade\<close> with its arguments; nothing reads it.

  Numbers: Python's \<^verbatim>\<open>Decimal\<close> and the \<^verbatim>\<open>float\<close> timestamps are embedded as rationals with
  exact arithmetic; \<^verbatim>\<open>int\<close> is \<open>int\<close>; \<^verbatim>\<open>str(int(x))\<close> is kept as the integer it prints.
\<close>

subsection \<open>Data\<close>

datatype TradeAction = BUY | SELL

text \<open>The dictionary built by \<^verbatim>\<open>get_token_account_info\<close>.\<close>

record token_info =
  raw_amount :: int
  decimals :: int
  ui_amount :: rat

text \<open>
  What can be raised inside the \<^verbatim>\<open>try\<close> of \<^verbatim>\<open>execute_trade\<close>: the two classes the first
  handler names, and everything else. Each carries \<^verbatim>\<open>str(e)\<close>.
\<close>

datatype exn = ClientError string | TimeoutError string | OtherError string

fun message :: "exn \<Rightarrow> string" where
  "message (ClientError m) = m"
| "message (TimeoutError m) = m"
| "message (OtherError m) = m"

text \<open>The query parameters of the swap request.\<close>

record swap_params =
  fromMint :: string
  toMint :: string
  amount :: int
  slippage :: int
  priorityMicroLamports :: int
  owner :: string
  provider :: string

text \<open>
  The swap gateway's answer: the request or the decoding of its body raises; the body says
  \<^verbatim>\<open>success\<close> is false (with its message); the body says success but the transaction in it
  cannot be decoded or signed (an exception that is not a network error); or a transaction.
\<close>

datatype swap_reply =
  SwapRaised exn
| SwapUnsuccessful string
| SwapUndecodable string
| SwapTransaction string

text \<open>
  The answer to \<^verbatim>\<open>sendTransaction\<close>: the request raises, the result has an \<^verbatim>\<open>error\<close> field
  (with its message), or it has none.
\<close>

datatype send_reply =
  SendRaised exn
| SendError string
| SendAccepted

datatype exit_reason = ProfitTarget rat | HoldTimeout

datatype level = Info | Warning | Error

datatype log_msg =
  CooldownActive rat
| InsufficientSol
| VerifyFailedForSale
| NoTokenBalance
| SwapApiError string
| TransientRetry nat nat
| TransactionFailed string
| BuyPriceFailed
| Bought string rat
| Sold string rat
| NetworkRetry string nat nat
| NetworkFailure nat string
| TradeExecutionFailed string
| ZeroBalance
| ExitTriggered exit_reason
| VerifyFailedAfterRetry
| LostBalance
| RetryingSell rat rat nat nat
| MonitoringError string

text \<open>
  What the bot does, in order: it takes and gives back a permit of its semaphore, sleeps,
  logs, prints (the answer of the swap gateway, kept here as its message), and calls a
  service; a call is noted with its arguments and its answer.
\<close>

datatype event =
  Acquire
| Release
| Sleep rat
| Log level log_msg
| Print string
| GetTokenAccountInfo string "token_info option"
| GetSolBalance rat
| GetTokenPrice string rat
| SwapGet swap_params string swap_reply
| SendTransaction string send_reply

record env =
  time_at :: "nat \<Rightarrow> rat"
  account_info_at :: "nat \<Rightarrow> token_info option"
  sol_balance_at :: "nat \<Rightarrow> rat"
  price_at :: "nat \<Rightarrow> rat"
  swap_at :: "nat \<Rightarrow> swap_reply"
  send_at :: "nat \<Rightarrow> send_reply"

record world =
  n_time :: nat
  n_info :: nat
  n_sol :: nat
  n_price :: nat
  n_swap :: nat
  n_send :: nat
  trace :: "event list"
  invocations :: "(string \<times> TradeAction \<times> rat \<times> int) list"

definition emit :: "event \<Rightarrow> world \<Rightarrow> world" where
  "emit e w = w\<lparr>trace := trace w @ [e]\<rparr>"

definition sleep :: "rat \<Rightarrow> world \<Rightarrow> world" where
  "sleep d w = emit (Sleep d) w"

definition logger :: "level \<Rightarrow> log_msg \<Rightarrow> world \<Rightarrow> world" where
  "logger l m w = emit (Log l m) w"

text \<open>
  The fields of \<^verbatim>\<open>TradingBot\<close>. The key pair only signs and the logger only prints, so they
  are left out; \<^verbatim>\<open>semaphore\<close> is the number of free permits.
\<close>

datatype session_state = NoSession | SessionOpen | SessionClosed

record bot =
  wallet_address :: string
  rpc_url :: string
  swap_url :: string
  api_key :: string
  sol_mint :: string
  current_position :: "string option"
  position_open_time :: "rat option"
  blacklisted_tokens :: "string set"
  buy_price :: rat
  session :: session_state
  semaphore :: nat
  cooldown_end_time :: rat
  trades_executed :: int
  total_profit :: rat

subsection \<open>The balance verifier\<close>

text \<open>
  \<^verbatim>\<open>get_token_account_info\<close> returns the reading, or \<^verbatim>\<open>None\<close> when the account does not exist,
  is not a token account, or every one of its own attempts failed. It never raises. One call
  is one event and takes the next answer of the environment.
\<close>

definition get_token_account_info :: "env \<Rightarrow> string \<Rightarrow> world \<Rightarrow> token_info option \<times> world" where
  "get_token_account_info env token_address w =
     (account_info_at env (n_info w),
      emit (GetTokenAccountInfo token_address (account_info_at env (n_info w)))
        (w\<lparr>n_info := Suc (n_info w)\<rparr>))"

text \<open>
  The body of the \<^verbatim>\<open>for\<close> loop of \<^verbatim>\<open>verify_token_balance\<close>, with the number of iterations
  left, \<^verbatim>\<open>confirmations\<close> and \<^verbatim>\<open>last_info\<close>. The number of reads \<^verbatim>\<open>min_retries\<close> is a
  natural number: \<^verbatim>\<open>range\<close> of a negative number is as empty as \<^verbatim>\<open>range(0)\<close>.
\<close>

fun verify_loop ::
  "env \<Rightarrow> string \<Rightarrow> nat \<Rightarrow> nat \<Rightarrow> token_info option \<Rightarrow> world
   \<Rightarrow> (bool \<times> token_info option) \<times> world" where
  "verify_loop env token_address 0 confirmations last_info w =
     ((2 \<le> confirmations, last_info), w)"
| "verify_loop env token_address (Suc n) confirmations last_info w =
     (case get_token_account_info env token_address w of
        (None, w1) \<Rightarrow>
          verify_loop env token_address n confirmations last_info (sleep (3/2) w1)
      | (Some ti, w1) \<Rightarrow>
          if raw_amount ti \<le> 0 then ((False, None), logger Warning ZeroBalance w1)
          else verify_loop env token_address n
                 (case last_info of
                    Some li \<Rightarrow> if raw_amount ti = raw_amount li then confirmations + 1 else 0
                  | None \<Rightarrow> 0)
                 (Some ti) w1)"

definition verify_token_balance ::
  "env \<Rightarrow> string \<Rightarrow> nat \<Rightarrow> world \<Rightarrow> (bool \<times> token_info option) \<times> world" where
  "verify_token_balance env token_address min_retries w =
     verify_loop env token_address min_retries 0 None w"

subsection \<open>The services\<close>

text \<open>
  \<^verbatim>\<open>time.time()\<close>, \<^verbatim>\<open>get_sol_balance\<close> and \<^verbatim>\<open>get_token_price\<close>. The last two catch every
  exception themselves and then return \<^verbatim>\<open>Decimal(0)\<close>, so their answer is a number.
\<close>

definition now :: "env \<Rightarrow> world \<Rightarrow> rat \<times> world" where
  "now env w = (time_at env (n_time w), w\<lparr>n_time := Suc (n_time w)\<rparr>)"

definition get_sol_balance :: "env \<Rightarrow> world \<Rightarrow> rat \<times> world" where
  "get_sol_balance env w =
     (sol_balance_at env (n_sol w),
      emit (GetSolBalance (sol_balance_at env (n_sol w))) (w\<lparr>n_sol := Suc (n_sol w)\<rparr>))"

definition get_token_price :: "env \<Rightarrow> string \<Rightarrow> world \<Rightarrow> rat \<times> world" where
  "get_token_price env token_address w =
     (price_at env (n_price w),
      emit (GetTokenPrice token_address (price_at env (n_price w)))
        (w\<lparr>n_price := Suc (n_price w)\<rparr>))"

definition get_session :: "bot \<Rightarrow> bot" where
  "get_session s =
     (if session s = NoSession \<or> session s = SessionClosed then s\<lparr>session := SessionOpen\<rparr>
      else s)"

subsection \<open>The trade executor\<close>

definition max_retries :: nat where
  "max_retries = 3"

definition retry_delay :: rat where
  "retry_delay = 1 / 2"

text \<open>\<^verbatim>\<open>int(d)\<close> of a decimal: truncation towards zero.\<close>

definition py_int :: "rat \<Rightarrow> int" where
  "py_int x = (if 0 \<le> x then \<lfloor>x\<rfloor> else - \<lfloor>- x\<rfloor>)"

text \<open>
  \<^verbatim>\<open>any(msg in error_msg for msg in [...])\<close>: Python's \<^verbatim>\<open>in\<close> on strings is containment
  of a contiguous substring, with the case of the letters as written.
\<close>

definition transient_messages :: "string list" where
  "transient_messages = [''Blockhash not found'', ''Transaction was not confirmed'']"

definition is_transient :: "string \<Rightarrow> bool" where
  "is_transient error_msg = list_ex (\<lambda>msg. sublist msg error_msg) transient_messages"

definition buy_params :: "bot \<Rightarrow> string \<Rightarrow> rat \<Rightarrow> swap_params" where
  "buy_params s token_address sol_balance =
     (let trade_amount = sol_balance * (1 / 10) in
      \<lparr>fromMint = sol_mint s, toMint = token_address,
       amount = py_int (trade_amount * 10 ^ 9),
       slippage = 3000,
       priorityMicroLamports = py_int ((1 / 10000) * 10 ^ 9),
       owner = wallet_address s, provider = ''raydium''\<rparr>)"

definition sell_params :: "bot \<Rightarrow> string \<Rightarrow> int \<Rightarrow> rat \<Rightarrow> int \<Rightarrow> swap_params" where
  "sell_params s token_address raw priority_multiplier slippage_bps =
     \<lparr>fromMint = token_address, toMint = sol_mint s,
      amount = raw,
      slippage = slippage_bps,
      priorityMicroLamports = py_int ((1 / 10000) * 10 ^ 9 * priority_multiplier),
      owner = wallet_address s, provider = ''raydium''\<rparr>"

text \<open>
  How the body of the \<^verbatim>\<open>try\<close> ends: a \<^verbatim>\<open>return\<close>, the \<^verbatim>\<open>continue\<close> after a transient
  RPC error, or an exception.
\<close>

datatype flow = Return bool | Continue | Raise exn

text \<open>What follows an accepted transaction, for a buy and for a sell.\<close>

definition settle_buy :: "env \<Rightarrow> string \<Rightarrow> bot \<Rightarrow> world \<Rightarrow> flow \<times> bot \<times> world" where
  "settle_buy env token_address s w =
     (case get_token_price env token_address w of (price, w1) \<Rightarrow>
        let s1 = s\<lparr>buy_price := price\<rparr> in
        if price = 0 then (Return False, s1, logger Error BuyPriceFailed w1)
        else (case now env w1 of (t, w2) \<Rightarrow>
          (Return True,
           s1\<lparr>current_position := Some token_address, position_open_time := Some t,
              trades_executed := trades_executed s1 + 1\<rparr>,
           logger Info (Bought token_address price) w2)))"

definition settle_sell ::
  "env \<Rightarrow> string \<Rightarrow> token_info option \<Rightarrow> bot \<Rightarrow> world \<Rightarrow> flow \<times> bot \<times> world" where
  "settle_sell env token_address token_info s w =
     (case get_token_price env token_address w of (sell_price, w1) \<Rightarrow>
        case (case token_info of
                Some ti \<Rightarrow>
                  if sell_price \<noteq> 0 then
                    (let profit = (sell_price - buy_price s) * ui_amount ti in
                     (s\<lparr>total_profit := total_profit s + profit\<rparr>,
                      logger Info (Sold token_address profit) w1))
                  else (s, w1)
              | None \<Rightarrow> (s, w1)) of (s1, w2) \<Rightarrow>
        case now env w2 of (t, w3) \<Rightarrow>
          (Return True,
           s1\<lparr>current_position := None, position_open_time := None,
              cooldown_end_time := t + 15\<rparr>,
           w3))"

text \<open>
  From the swap request to the end of the \<^verbatim>\<open>try\<close> body: ask the gateway for the
  transaction, sign it, submit it, read the result.
\<close>

definition submit ::
  "env \<Rightarrow> string \<Rightarrow> TradeAction \<Rightarrow> token_info option \<Rightarrow> swap_params \<Rightarrow> nat \<Rightarrow> bot \<Rightarrow> world
   \<Rightarrow> flow \<times> bot \<times> world" where
  "submit env token_address action token_info params attempt s w =
     (let w1 = emit (SwapGet params (api_key s) (swap_at env (n_swap w)))
                  (w\<lparr>n_swap := Suc (n_swap w)\<rparr>) in
      case swap_at env (n_swap w) of
        SwapRaised e \<Rightarrow> (Raise e, s, w1)
      | SwapUnsuccessful error_msg \<Rightarrow>
          (Return False, s, emit (Print error_msg) (logger Error (SwapApiError error_msg) w1))
      | SwapUndecodable m \<Rightarrow> (Raise (OtherError m), s, w1)
      | SwapTransaction tx \<Rightarrow>
          (let w2 = emit (SendTransaction tx (send_at env (n_send w1)))
                      (w1\<lparr>n_send := Suc (n_send w1)\<rparr>) in
           case send_at env (n_send w1) of
             SendRaised e \<Rightarrow> (Raise e, s, w2)
           | SendError error_msg \<Rightarrow>
               if is_transient error_msg then
                 (Continue, s,
                  sleep (retry_delay * of_nat (attempt + 1))
                    (logger Warning (TransientRetry attempt max_retries) w2))
               else (Return False, s, logger Error (TransactionFailed error_msg) w2)
           | SendAccepted \<Rightarrow>
               (case action of
                  BUY \<Rightarrow> settle_buy env token_address s w2
                | SELL \<Rightarrow> settle_sell env token_address token_info s w2)))"

text \<open>
  The body of the \<^verbatim>\<open>try\<close>, inside \<^verbatim>\<open>async with self.semaphore\<close>. For a sell, the test
  \<^verbatim>\<open>not is_valid or not token_info\<close> is the first two branches: no reading, or a reading
  and an answer that is not valid.
\<close>

definition trade_body ::
  "env \<Rightarrow> string \<Rightarrow> TradeAction \<Rightarrow> rat \<Rightarrow> int \<Rightarrow> nat \<Rightarrow> bot \<Rightarrow> world \<Rightarrow> flow \<times> bot \<times> world" where
  "trade_body env token_address action priority_multiplier slippage_bps attempt s0 w =
     (let s = get_session s0 in
      case action of
        BUY \<Rightarrow>
          (case now env w of (current_time, w1) \<Rightarrow>
             if current_time < cooldown_end_time s then
               (let remaining = cooldown_end_time s - current_time in
                (Return False, s, logger Info (CooldownActive remaining) w1))
             else
               (case get_sol_balance env w1 of (sol_balance, w2) \<Rightarrow>
                  if sol_balance < 1 / 10000 then
                    (Return False, s, logger Error InsufficientSol w2)
                  else submit env token_address BUY None
                         (buy_params s token_address sol_balance) attempt s w2))
      | SELL \<Rightarrow>
          (case verify_token_balance env token_address 3 w of ((is_valid, token_info), w1) \<Rightarrow>
             (case token_info of
                None \<Rightarrow> (Return False, s, logger Error VerifyFailedForSale w1)
              | Some ti \<Rightarrow>
                  if \<not> is_valid then (Return False, s, logger Error VerifyFailedForSale w1)
                  else if raw_amount ti \<le> 0 then
                    (Return False, s, logger Error NoTokenBalance w1)
                  else submit env token_address SELL token_info
                         (sell_params s token_address (raw_amount ti)
                            priority_multiplier slippage_bps) attempt s w1)))"

text \<open>
  One iteration of the \<^verbatim>\<open>for\<close> loop: take a permit (with none free the task waits, which
  is \<open>None\<close> here), run the body, give the permit back, and handle what was raised.
\<close>

datatype outcome = Returned bool | NextAttempt

text \<open>
  The two \<^verbatim>\<open>except\<close> clauses: the first catches \<^verbatim>\<open>aiohttp.ClientError\<close> and
  \<^verbatim>\<open>asyncio.TimeoutError\<close>, the second everything else.
\<close>

definition handle_exn :: "exn \<Rightarrow> nat \<Rightarrow> world \<Rightarrow> outcome \<times> world" where
  "handle_exn e attempt w =
     (case e of
        OtherError m \<Rightarrow> (Returned False, logger Error (TradeExecutionFailed m) w)
      | _ \<Rightarrow>
          if attempt < max_retries then
            (NextAttempt,
             sleep (retry_delay * of_nat (attempt + 1))
               (logger Warning (NetworkRetry (message e) attempt max_retries) w))
          else (Returned False, logger Error (NetworkFailure max_retries (message e)) w))"

definition attempt_once ::
  "env \<Rightarrow> string \<Rightarrow> TradeAction \<Rightarrow> rat \<Rightarrow> int \<Rightarrow> nat \<Rightarrow> bot \<Rightarrow> world
   \<Rightarrow> (outcome \<times> bot \<times> world) option" where
  "attempt_once env token_address action priority_multiplier slippage_bps attempt s w =
     (if semaphore s = 0 then None
      else
        (case trade_body env token_address action priority_multiplier slippage_bps attempt
                (s\<lparr>semaphore := semaphore s - 1\<rparr>) (emit Acquire w) of
           (f, s1, w1) \<Rightarrow>
             (let s2 = s1\<lparr>semaphore := semaphore s1 + 1\<rparr>; w2 = emit Release w1 in
              case f of
                Return b \<Rightarrow> Some (Returned b, s2, w2)
              | Continue \<Rightarrow> Some (NextAttempt, s2, w2)
              | Raise e \<Rightarrow> (case handle_exn e attempt w2 of (out, w3) \<Rightarrow> Some (out, s2, w3)))))"

text \<open>
  \<^verbatim>\<open>for attempt in range(max_retries + 1)\<close>, with the number of iterations left; falling out
  of the loop is the final \<^verbatim>\<open>return False\<close>.
\<close>

fun trade_loop ::
  "env \<Rightarrow> string \<Rightarrow> TradeAction \<Rightarrow> rat \<Rightarrow> int \<Rightarrow> nat \<Rightarrow> nat \<Rightarrow> bot \<Rightarrow> world
   \<Rightarrow> (bool \<times> bot \<times> world) option" where
  "trade_loop env token_address action priority_multiplier slippage_bps 0 attempt s w =
     Some (False, s, w)"
| "trade_loop env token_address action priority_multiplier slippage_bps (Suc k) attempt s w =
     (case attempt_once env token_address action priority_multiplier slippage_bps attempt s w of
        None \<Rightarrow> None
      | Some (Returned b, s1, w1) \<Rightarrow> Some (b, s1, w1)
      | Some (NextAttempt, s1, w1) \<Rightarrow>
          trade_loop env token_address action priority_multiplier slippage_bps k
            (Suc attempt) s1 w1)"

text \<open>Every call is noted in \<open>invocations\<close> with its arguments, before anything else.\<close>

definition execute_trade ::
  "env \<Rightarrow> string \<Rightarrow> TradeAction \<Rightarrow> rat \<Rightarrow> int \<Rightarrow> bot \<Rightarrow> world
   \<Rightarrow> (bool \<times> bot \<times> world) option" where
  "execute_trade env token_address action priority_multiplier slippage_bps s w =
     trade_loop env token_address action priority_multiplier slippage_bps (max_retries + 1) 0 s
       (w\<lparr>invocations :=
            invocations w @ [(token_address, action, priority_multiplier, slippage_bps)]\<rparr>)"

subsection \<open>The position monitor\<close>

definition max_sell_retries :: nat where
  "max_sell_retries = 4"

definition multipliers :: "rat list" where
  "multipliers = [1, 3 / 2, 2, 3]"

definition slippages :: "int list" where
  "slippages = [2000, 3000, 4000, 5000]"

text \<open>The truth value Python gives \<^verbatim>\<open>self.current_position\<close>: a string that is not empty.\<close>

definition truthy :: "string option \<Rightarrow> bool" where
  "truthy p = (case p of None \<Rightarrow> False | Some a \<Rightarrow> a \<noteq> [])"

text \<open>
  \<^verbatim>\<open>((current_price - self.buy_price) / self.buy_price) * 100\<close>: a decimal division by zero
  raises (\<^verbatim>\<open>InvalidOperation\<close> for 0/0, \<^verbatim>\<open>DivisionByZero\<close> otherwise).
\<close>

definition profit_pct :: "rat \<Rightarrow> rat \<Rightarrow> exn + rat" where
  "profit_pct current_price buy =
     (if buy = 0 then
        (if current_price - buy = 0 then Inl (OtherError ''InvalidOperation'')
         else Inl (OtherError ''DivisionByZero''))
      else Inr (((current_price - buy) / buy) * 100))"

text \<open>The \<^verbatim>\<open>if\<close>/\<^verbatim>\<open>elif\<close> that sets \<^verbatim>\<open>exit_reason\<close>.\<close>

definition exit_reason_of :: "rat \<Rightarrow> rat \<Rightarrow> exit_reason option" where
  "exit_reason_of pct time_held =
     (if 15 \<le> pct then Some (ProfitTarget pct)
      else if 20 * 60 \<le> time_held then Some HoldTimeout
      else None)"

text \<open>
  How a run of the monitor stands: it returned, the fuel given to its outer loop ran out, or
  it waits for a permit that never comes.
\<close>

datatype status = Finished | OutOfFuel | Blocked

text \<open>
  The inner \<^verbatim>\<open>while retry_count < max_sell_retries and self.current_position\<close>. The two
  lists are read at \<^verbatim>\<open>retry_count\<close> only under the guard \<^verbatim>\<open>retry_count < max_sell_retries\<close>,
  that is within their length.
\<close>

function sell_loop :: "env \<Rightarrow> string \<Rightarrow> nat \<Rightarrow> bot \<Rightarrow> world \<Rightarrow> status \<times> bot \<times> world" where
  "sell_loop env token_address retry_count s w =
     (if retry_count < max_sell_retries \<and> truthy (current_position s) then
        (case execute_trade env token_address SELL
                (multipliers ! retry_count) (slippages ! retry_count) s w of
           None \<Rightarrow> (Blocked, s, w)
         | Some (success, s1, w1) \<Rightarrow>
             if success then (Finished, s1, w1)
             else
               (case verify_token_balance env token_address 3 w1 of ((is_valid, _), w2) \<Rightarrow>
                  if \<not> is_valid then
                    (Finished, s1\<lparr>current_position := None\<rparr>, logger Error LostBalance w2)
                  else
                    sell_loop env token_address (retry_count + 1) s1
                      (if retry_count + 1 < max_sell_retries then
                         sleep ((3 / 2) ^ (retry_count + 1))
                           (logger Info
                              (RetryingSell (multipliers ! (retry_count + 1))
                                 (of_int (slippages ! (retry_count + 1)) / 100)
                                 (retry_count + 1) max_sell_retries) w2)
                       else w2)))
      else (Finished, s, w))"
  by pat_completeness auto
termination
  by (relation "measure (\<lambda>(env, token_address, retry_count, s, w). max_sell_retries - retry_count)")
    auto

declare sell_loop.simps [simp del]

text \<open>From the moment an exit is triggered to the \<^verbatim>\<open>break\<close> that ends the monitor.\<close>

definition exit_position ::
  "env \<Rightarrow> string \<Rightarrow> exit_reason \<Rightarrow> bot \<Rightarrow> world \<Rightarrow> status \<times> bot \<times> world" where
  "exit_position env token_address reason s w =
     (case verify_token_balance env token_address 3 (logger Info (ExitTriggered reason) w) of
        ((is_valid, token_info), w1) \<Rightarrow>
          if \<not> is_valid then
            (case verify_token_balance env token_address 3
                    (sleep 2 (logger Error VerifyFailedForSale w1)) of
               ((is_valid2, token_info2), w2) \<Rightarrow>
                 if \<not> is_valid2 then
                   (Finished, s\<lparr>current_position := None\<rparr>,
                    logger Error VerifyFailedAfterRetry w2)
                 else sell_loop env token_address 0 s w2)
          else sell_loop env token_address 0 s w1)"

text \<open>
  The outer \<^verbatim>\<open>while self.current_position == token_address\<close>, which may go on for ever:
  the first argument bounds the number of iterations. Whatever is raised in the body is
  caught, logged, and the loop goes on after five seconds.
\<close>

fun monitor_loop :: "nat \<Rightarrow> env \<Rightarrow> string \<Rightarrow> bot \<Rightarrow> world \<Rightarrow> status \<times> bot \<times> world" where
  "monitor_loop 0 env token_address s w =
     (if current_position s \<noteq> Some token_address then (Finished, s, w) else (OutOfFuel, s, w))"
| "monitor_loop (Suc fuel) env token_address s w =
     (if current_position s \<noteq> Some token_address then (Finished, s, w)
      else
        (case get_token_price env token_address w of (current_price, w1) \<Rightarrow>
           if current_price = 0 then monitor_loop fuel env token_address s (sleep 2 w1)
           else
             (case profit_pct current_price (buy_price s) of
                Inl e \<Rightarrow>
                  monitor_loop fuel env token_address s
                    (sleep 5 (logger Error (MonitoringError (message e)) w1))
              | Inr pct \<Rightarrow>
                  (case now env w1 of (t, w2) \<Rightarrow>
                     (case position_open_time s of
                        None \<Rightarrow>
                          monitor_loop fuel env token_address s
                            (sleep 5 (logger Error (MonitoringError ''TypeError'') w2))
                      | Some opened \<Rightarrow>
                          (case exit_reason_of pct (t - opened) of
                             None \<Rightarrow> monitor_loop fuel env token_address s (sleep 2 w2)
                           | Some reason \<Rightarrow> exit_position env token_address reason s w2))))))"

definition monitor_token :: "nat \<Rightarrow> env \<Rightarrow> string \<Rightarrow> bot \<Rightarrow> world \<Rightarrow> status \<times> bot \<times> world" where
  "monitor_token fuel env token_address s w = monitor_loop fuel env token_address s w"

section \<open>Vocabulary of the properties\<close>

subsection \<open>Readings\<close>

text \<open>
  The \<open>n\<close> answers the verifier is offered from call \<open>i\<close> on, those of them that are
  readings, and their raw amounts.
\<close>

primrec reads_from :: "env \<Rightarrow> nat \<Rightarrow> nat \<Rightarrow> token_info option list" where
  "reads_from env i 0 = []"
| "reads_from env i (Suc n) = account_info_at env i # reads_from env (Suc i) n"

fun successes :: "token_info option list \<Rightarrow> token_info list" where
  "successes [] = []"
| "successes (None # rs) = successes rs"
| "successes (Some r # rs) = r # successes rs"

text \<open>
  The confirmation counter as the specification words it: one more when the current raw
  amount equals the one just before it, back to 0 on any change. \<open>streak\<close> takes the
  amounts latest first, \<open>spec_confirmations\<close> in the order they were read.
\<close>

fun streak :: "int list \<Rightarrow> nat" where
  "streak (x # y # zs) = (if x = y then Suc (streak (y # zs)) else 0)"
| "streak zs = 0"

definition spec_confirmations :: "int list \<Rightarrow> nat" where
  "spec_confirmations xs = streak (rev xs)"

definition read_amounts :: "env \<Rightarrow> nat \<Rightarrow> nat \<Rightarrow> int list" where
  "read_amounts env i n = map raw_amount (successes (reads_from env i n))"

subsection \<open>Concrete worlds\<close>

text \<open>
  An environment that answers from a list and then with a default; a reading with a given
  raw amount; an environment in which every service fails quietly; the world before any
  call.
\<close>

definition script :: "'a list \<Rightarrow> 'a \<Rightarrow> nat \<Rightarrow> 'a" where
  "script xs d i = (if i < length xs then xs ! i else d)"

definition reading :: "int \<Rightarrow> token_info" where
  "reading a = \<lparr>raw_amount = a, decimals = 0, ui_amount = of_int a\<rparr>"

definition quiet_env :: env where
  "quiet_env = \<lparr>time_at = (\<lambda>i. 0), account_info_at = (\<lambda>i. None), sol_balance_at = (\<lambda>i. 0),
     price_at = (\<lambda>i. 0), swap_at = (\<lambda>i. SwapUnsuccessful []), send_at = (\<lambda>i. SendAccepted)\<rparr>"

definition world0 :: world where
  "world0 = \<lparr>n_time = 0, n_info = 0, n_sol = 0, n_price = 0, n_swap = 0, n_send = 0,
     trace = [], invocations = []\<rparr>"

definition reads_100_100_100 :: env where
  "reads_100_100_100 =
     quiet_env\<lparr>account_info_at :=
       script [Some (reading 100), Some (reading 100), Some (reading 100)] None\<rparr>"

definition reads_50_100_100 :: env where
  "reads_50_100_100 =
     quiet_env\<lparr>account_info_at :=
       script [Some (reading 50), Some (reading 100), Some (reading 100)] None\<rparr>"

definition reads_100_50_0 :: env where
  "reads_100_50_0 =
     quiet_env\<lparr>account_info_at :=
       script [Some (reading 100), Some (reading 50), Some (reading 0),
               Some (reading 60), Some (reading 60)] None\<rparr>"

text \<open>A bot as \<^verbatim>\<open>__init__\<close> leaves it.\<close>

definition bot0 :: bot where
  "bot0 = \<lparr>wallet_address = ''W'', rpc_url = ''R'', swap_url = ''S'', api_key = ''K'',
     sol_mint = ''SOL'', current_position = None, position_open_time = None,
     blacklisted_tokens = {}, buy_price = 0, session = NoSession, semaphore = 5,
     cooldown_end_time = 0, trades_executed = 0, total_profit = 0\<rparr>"

subsection \<open>Attempts in a trace\<close>

text \<open>
  The events that mark a failure the executor does not retry: an error log or the cooldown
  notice, a SOL balance below the dust threshold, a swap response that is unsuccessful or
  cannot be decoded, an exception that is not a network error, an RPC error whose message
  is not transient.
\<close>

fun terminal_failure :: "event \<Rightarrow> bool" where
  "terminal_failure (Log Error m) = True"
| "terminal_failure (Log Info (CooldownActive r)) = True"
| "terminal_failure (GetSolBalance b) = (b < 1 / 10000)"
| "terminal_failure (SwapGet p k (SwapUnsuccessful m)) = True"
| "terminal_failure (SwapGet p k (SwapUndecodable m)) = True"
| "terminal_failure (SwapGet p k (SwapRaised (OtherError m))) = True"
| "terminal_failure (SendTransaction tx (SendRaised (OtherError m))) = True"
| "terminal_failure (SendTransaction tx (SendError m)) = (\<not> is_transient m)"
| "terminal_failure e = False"

text \<open>An event is calm when it neither starts an attempt nor marks such a failure.\<close>

definition calm :: "event \<Rightarrow> bool" where
  "calm e \<longleftrightarrow> e \<noteq> Acquire \<and> \<not> terminal_failure e"

text \<open>The exception a request ends with, if any.\<close>

fun raised_by :: "event \<Rightarrow> exn option" where
  "raised_by (SwapGet p k (SwapRaised e)) = Some e"
| "raised_by (SwapGet p k (SwapUndecodable m)) = Some (OtherError m)"
| "raised_by (SendTransaction tx (SendRaised e)) = Some e"
| "raised_by e = None"

text \<open>
  How attempt number \<open>a\<close> (counted from 0) ends when the executor goes on to another
  attempt. Either the RPC node reported an error with a transient message: the warning, the
  sleep of \<open>retry_delay * (a + 1)\<close> seconds, and the permit given back. Or a request
  raised a network error or timed out, with retries left: the permit given back, the
  warning, the same sleep.
\<close>

definition retry_tail :: "nat \<Rightarrow> event list \<Rightarrow> bool" where
  "retry_tail a seg \<longleftrightarrow>
     (\<exists>mid tx m. seg = mid @ [SendTransaction tx (SendError m),
          Log Warning (TransientRetry a max_retries),
          Sleep (retry_delay * of_nat (a + 1)), Release] \<and> is_transient m)
   \<or> (\<exists>mid io m. seg = mid @ [io, Release, Log Warning (NetworkRetry m a max_retries),
          Sleep (retry_delay * of_nat (a + 1))]
        \<and> (raised_by io = Some (ClientError m) \<or> raised_by io = Some (TimeoutError m))
        \<and> a < max_retries)"

subsection \<open>Buys and sells\<close>

text \<open>A world without the note of the calls made.\<close>

definition forget :: "world \<Rightarrow> world" where
  "forget w = w\<lparr>invocations := []\<rparr>"

text \<open>
  An environment in which everything works: the clock stands at 100, every reading is 100
  tokens, the wallet holds 1 SOL, the price is 2, swaps and submissions succeed. And a bot
  that has to wait until 115 before it buys.
\<close>

definition market_env :: env where
  "market_env = \<lparr>time_at = (\<lambda>i. 100), account_info_at = (\<lambda>i. Some (reading 100)),
     sol_balance_at = (\<lambda>i. 1), price_at = (\<lambda>i. 2),
     swap_at = (\<lambda>i. SwapTransaction ''tx''), send_at = (\<lambda>i. SendAccepted)\<rparr>"

definition cooling_bot :: bot where
  "cooling_bot = bot0\<lparr>cooldown_end_time := 115\<rparr>"

text \<open>What a swap request of a buy looks like, whatever the arguments of the call.\<close>

definition buy_request :: "bot \<Rightarrow> string \<Rightarrow> event \<Rightarrow> bool" where
  "buy_request s tok e \<longleftrightarrow>
     (\<forall>p k r. e = SwapGet p k r \<longrightarrow>
        slippage p = 3000 \<and> priorityMicroLamports p = 100000
        \<and> fromMint p = sol_mint s \<and> toMint p = tok)"

text \<open>The escalation schedule as the specification lists it, and a sell call with one of its pairs.\<close>

definition sell_schedule :: "(rat \<times> int) list" where
  "sell_schedule = [(1, 2000), (3 / 2, 3000), (2, 4000), (3, 5000)]"

definition sell_call :: "string \<Rightarrow> rat \<times> int \<Rightarrow> string \<times> TradeAction \<times> rat \<times> int" where
  "sell_call tok p = (tok, SELL, fst p, snd p)"


definition holding_bot :: bot where
  "holding_bot = bot0\<lparr>current_position := Some ''T'', position_open_time := Some 0,
     buy_price := 1, session := SessionOpen\<rparr>"



definition failing_swap_env :: env where
  "failing_swap_env = market_env\<lparr>swap_at := (\<lambda>i. SwapUnsuccessful ''no route'')\<rparr>"

definition buy_request_ok :: "swap_params" where
  "buy_request_ok = \<lparr>fromMint = ''SOL'', toMint = ''T'', amount = 100000000,
     slippage = 3000, priorityMicroLamports = 100000, owner = ''W'',
     provider = ''raydium''\<rparr>"





section \<open>Proofs\<close>

subsection \<open>The balance verifier\<close>

lemma n_info_emit [simp]: "n_info (emit e w) = n_info w"
  by (simp add: emit_def)

lemma n_info_sleep [simp]: "n_info (sleep d w) = n_info w"
  by (simp add: sleep_def)

lemma n_info_logger [simp]: "n_info (logger l m w) = n_info w"
  by (simp add: logger_def)

lemma get_token_account_info_fst [simp]:
  "fst (get_token_account_info env tok w) = account_info_at env (n_info w)"
  by (simp add: get_token_account_info_def)

lemma get_token_account_info_n_info [simp]:
  "n_info (snd (get_token_account_info env tok w)) = Suc (n_info w)"
  by (simp add: get_token_account_info_def)

lemma verify_loop_nonpositive:
  "j < n \<Longrightarrow> account_info_at env (n_info w + j) = Some r \<Longrightarrow> raw_amount r \<le> 0 \<Longrightarrow>
   (\<forall>k<j. \<forall>r'. account_info_at env (n_info w + k) = Some r' \<longrightarrow> 0 < raw_amount r') \<Longrightarrow>
   fst (verify_loop env tok n c l w) = (False, None) \<and>
   n_info (snd (verify_loop env tok n c l w)) = n_info w + Suc j"
proof (induction n arbitrary: j w c l)
  case 0
  then show ?case by simp
next
  case (Suc n)
  obtain a w1 where g: "get_token_account_info env tok w = (a, w1)"
    by (cases "get_token_account_info env tok w")
  have a: "a = account_info_at env (n_info w)" and w1: "n_info w1 = Suc (n_info w)"
    using g get_token_account_info_fst [of env tok w] get_token_account_info_n_info [of env tok w]
    by simp_all
  show ?case
  proof (cases j)
    case 0
    with Suc.prems g a show ?thesis by (simp add: w1)
  next
    case (Suc j')
    have first: "\<forall>r'. a = Some r' \<longrightarrow> 0 < raw_amount r'"
      using Suc.prems(4) a Suc by (metis add.right_neutral zero_less_Suc)
    have rest: "\<forall>k<j'. \<forall>r'. account_info_at env (Suc (n_info w) + k) = Some r' \<longrightarrow> 0 < raw_amount r'"
      using Suc.prems(4) Suc by (metis Suc_less_eq add_Suc_shift)
    have at: "account_info_at env (Suc (n_info w) + j') = Some r"
      using Suc.prems(2) Suc by simp
    have lt: "j' < n" using Suc.prems(1) Suc by simp
    show ?thesis
    proof (cases a)
      case None
      have "n_info (sleep (3/2) w1) = Suc (n_info w)" by (simp add: w1)
      from Suc.IH [of j' "sleep (3/2) w1" c l, OF lt] this at rest Suc.prems(3)
      show ?thesis using g None Suc by simp
    next
      case (Some ti)
      with first have pos: "0 < raw_amount ti" by simp
      from Suc.IH [of j' w1 _ "Some ti", OF lt] w1 at rest Suc.prems(3)
      show ?thesis using g Some Suc pos by simp
    qed
  qed
qed

lemma verify_loop_valid_positive:
  "fst (fst (verify_loop env tok n c l w)) \<Longrightarrow>
   (0 < c \<longrightarrow> l \<noteq> None) \<Longrightarrow> (\<forall>li. l = Some li \<longrightarrow> 0 < raw_amount li) \<Longrightarrow>
   \<exists>ti. snd (fst (verify_loop env tok n c l w)) = Some ti \<and> 0 < raw_amount ti"
proof (induction n arbitrary: c l w)
  case 0
  then show ?case by (cases l) auto
next
  case (Suc n)
  obtain a w1 where g: "get_token_account_info env tok w = (a, w1)"
    by (cases "get_token_account_info env tok w")
  show ?case
  proof (cases a)
    case None
    with Suc g show ?thesis by simp
  next
    case (Some ti)
    show ?thesis
    proof (cases "raw_amount ti \<le> 0")
      case True
      with Suc.prems(1) g Some show ?thesis by simp
    next
      case False
      with Suc.prems(1) g Some
      have v: "fst (fst (verify_loop env tok n
                 (case l of Some li \<Rightarrow> if raw_amount ti = raw_amount li then c + 1 else 0 | None \<Rightarrow> 0)
                 (Some ti) w1))" by simp
      from Suc.IH [OF v] False
      show ?thesis using g Some by simp
    qed
  qed
qed

lemma streak_ge2: "2 \<le> streak h \<longleftrightarrow> (\<exists>a rest. h = a # a # a # rest)"
proof (cases h)
  case Nil
  then show ?thesis by simp
next
  case (Cons x t)
  note c1 = this
  show ?thesis
  proof (cases t)
    case Nil
    with c1 show ?thesis by simp
  next
    case (Cons y u)
    note c2 = this
    show ?thesis
    proof (cases u)
      case Nil
      with c1 c2 show ?thesis by simp
    next
      case (Cons z v)
      with c1 c2 show ?thesis by auto
    qed
  qed
qed

lemma verify_loop_char:
  "fst (fst (verify_loop env tok n (streak (map raw_amount hs))
       (case hs of [] \<Rightarrow> None | h # _ \<Rightarrow> Some h) w)) \<longleftrightarrow>
   (\<forall>r\<in>set (successes (reads_from env (n_info w) n)). 0 < raw_amount r) \<and>
   2 \<le> streak (rev (map raw_amount (successes (reads_from env (n_info w) n))) @ map raw_amount hs)"
proof (induction n arbitrary: hs w)
  case 0
  then show ?case by simp
next
  case (Suc n)
  obtain a w1 where g: "get_token_account_info env tok w = (a, w1)"
    by (cases "get_token_account_info env tok w")
  have a: "a = account_info_at env (n_info w)" and w1: "n_info w1 = Suc (n_info w)"
    using g get_token_account_info_fst [of env tok w] get_token_account_info_n_info [of env tok w]
    by simp_all
  show ?case
  proof (cases a)
    case None
    have "n_info (sleep (3/2) w1) = Suc (n_info w)" by (simp add: w1)
    with Suc.IH [of hs "sleep (3/2) w1"] show ?thesis
      using g None a by simp
  next
    case (Some ti)
    show ?thesis
    proof (cases "raw_amount ti \<le> 0")
      case True
      then show ?thesis using g Some a by auto
    next
      case False
      have c: "(case (case hs of [] \<Rightarrow> None | h # _ \<Rightarrow> Some h) of
                  Some li \<Rightarrow> if raw_amount ti = raw_amount li
                             then streak (map raw_amount hs) + 1 else 0
                | None \<Rightarrow> 0) = streak (map raw_amount (ti # hs))"
        by (cases hs) simp_all
      from Suc.IH [of "ti # hs" w1] show ?thesis
        using g Some a False c w1 by (simp del: streak.simps) 
    qed
  qed
qed

lemma all_less_3: "(\<forall>j<3::nat. P j) \<longleftrightarrow> P 0 \<and> P 1 \<and> P 2"
proof -
  have "\<And>j::nat. j < 3 \<longleftrightarrow> j = 0 \<or> j = 1 \<or> j = 2" by arith
  then show ?thesis by auto
qed

lemma reads_from_3:
  "reads_from env i 3 =
     [account_info_at env i, account_info_at env (i + 1), account_info_at env (i + 2)]"
  by (simp add: numeral_3_eq_3)

lemma short_triple:
  "length xs \<le> 3 \<Longrightarrow> (\<exists>ys a. xs = ys @ [a, a, a]) \<longleftrightarrow> (\<exists>a. xs = [a, a, a])"
proof
  assume l: "length xs \<le> 3" and "\<exists>ys a. xs = ys @ [a, a, a]"
  then obtain ys a where x: "xs = ys @ [a, a, a]" by blast
  with l have "ys = []" by simp
  with x show "\<exists>a. xs = [a, a, a]" by simp
next
  assume "\<exists>a. xs = [a, a, a]"
  then obtain a where "xs = [] @ [a, a, a]" by auto
  then show "\<exists>ys a. xs = ys @ [a, a, a]" by blast
qed

lemma length_successes: "length (successes rs) \<le> length rs"
  by (induction rs rule: successes.induct) simp_all

lemma read_amounts_3:
  "(\<exists>ys a. read_amounts env i 3 = ys @ [a, a, a]) \<longleftrightarrow>
   (\<exists>a. \<forall>j<3. \<exists>r. account_info_at env (i + j) = Some r \<and> raw_amount r = a)"
proof -
  have "length (read_amounts env i 3) \<le> 3"
    using length_successes [of "reads_from env i 3"] by (simp add: read_amounts_def reads_from_3)
  from short_triple [OF this]
  have "(\<exists>ys a. read_amounts env i 3 = ys @ [a, a, a]) \<longleftrightarrow> (\<exists>a. read_amounts env i 3 = [a, a, a])" .
  also have "\<dots> \<longleftrightarrow> (\<exists>a. \<forall>j<3. \<exists>r. account_info_at env (i + j) = Some r \<and> raw_amount r = a)"
    unfolding all_less_3 read_amounts_def reads_from_3
    by (cases "account_info_at env i"; cases "account_info_at env (i + 1)";
        cases "account_info_at env (i + 2)") auto
  finally show ?thesis .
qed

lemma verify_three_equal:
  assumes "account_info_at env (n_info w) = Some r0"
    and "account_info_at env (n_info w + 1) = Some r1"
    and "account_info_at env (n_info w + 2) = Some r2"
    and "raw_amount r0 = a" "raw_amount r1 = a" "raw_amount r2 = a" "0 < a"
  shows "fst (verify_token_balance env tok 3 w) = (True, Some r2)"
  using assms
  by (simp add: verify_token_balance_def numeral_3_eq_3 get_token_account_info_def emit_def)

lemma trace_emit [simp]: "trace (emit e w) = trace w @ [e]"
  by (simp add: emit_def)

lemma verify_loop_nonpositive_trace:
  "j < n \<Longrightarrow> account_info_at env (n_info w + j) = Some r \<Longrightarrow> raw_amount r \<le> 0 \<Longrightarrow>
   (\<forall>k<j. \<forall>r'. account_info_at env (n_info w + k) = Some r' \<longrightarrow> 0 < raw_amount r') \<Longrightarrow>
   \<exists>pre. trace (snd (verify_loop env tok n c l w)) =
     trace w @ pre @ [GetTokenAccountInfo tok (Some r), Log Warning ZeroBalance]"
proof (induction n arbitrary: j w c l)
  case 0
  then show ?case by simp
next
  case (Suc n)
  let ?a = "account_info_at env (n_info w)"
  let ?w1 = "emit (GetTokenAccountInfo tok ?a) (w\<lparr>n_info := Suc (n_info w)\<rparr>)"
  have g: "get_token_account_info env tok w = (account_info_at env (n_info w), ?w1)"
    by (simp add: get_token_account_info_def)
  have t1: "trace ?w1 = trace w @ [GetTokenAccountInfo tok ?a]" by simp
  show ?case
  proof (cases j)
    case 0
    with Suc.prems g show ?thesis
      by (simp add: logger_def) 
  next
    case (Suc j')
    have first: "\<forall>r'. account_info_at env (n_info w) = Some r' \<longrightarrow> 0 < raw_amount r'"
      using Suc.prems(4) Suc by (metis add.right_neutral zero_less_Suc)
    have rest: "\<forall>k<j'. \<forall>r'. account_info_at env (Suc (n_info w) + k) = Some r' \<longrightarrow> 0 < raw_amount r'"
      using Suc.prems(4) Suc by (metis Suc_less_eq add_Suc_shift)
    have at: "account_info_at env (Suc (n_info w) + j') = Some r"
      using Suc.prems(2) Suc by simp
    have lt: "j' < n" using Suc.prems(1) Suc by simp
    show ?thesis
    proof (cases "account_info_at env (n_info w)")
      case None
      have n: "n_info (sleep (3/2) ?w1) = Suc (n_info w)" by simp
      from Suc.IH [of j' "sleep (3/2) ?w1" c l, OF lt] n at rest Suc.prems(3)
      obtain pre where "trace (snd (verify_loop env tok n c l (sleep (3/2) ?w1))) =
         trace (sleep (3/2) ?w1) @ pre @ [GetTokenAccountInfo tok (Some r), Log Warning ZeroBalance]"
        by auto
      then have "trace (snd (verify_loop env tok (Suc n) c l w)) =
         trace w @ ([GetTokenAccountInfo tok None, Sleep (3/2)] @ pre) @
           [GetTokenAccountInfo tok (Some r), Log Warning ZeroBalance]"
        using g None by (simp add: sleep_def)
      then show ?thesis by blast
    next
      case (Some ti)
      with first have pos: "0 < raw_amount ti" by simp
      let ?c = "case l of Some li \<Rightarrow> if raw_amount ti = raw_amount li then c + 1 else 0
                | None \<Rightarrow> 0"
      have n: "n_info ?w1 = Suc (n_info w)" by simp
      from Suc.IH [of j' ?w1 ?c "Some ti", OF lt] n at rest Suc.prems(3)
      obtain pre where "trace (snd (verify_loop env tok n ?c (Some ti) ?w1)) =
         trace ?w1 @ pre @ [GetTokenAccountInfo tok (Some r), Log Warning ZeroBalance]"
        by auto
      then have "trace (snd (verify_loop env tok (Suc n) c l w)) =
         trace w @ ([GetTokenAccountInfo tok (Some ti)] @ pre) @
           [GetTokenAccountInfo tok (Some r), Log Warning ZeroBalance]"
        using g Some pos by simp
      then show ?thesis by blast
    qed
  qed
qed

text \<open>
  Claim C1, as amended. Whatever the readings, the verifier answers valid exactly when every
  reading it could get is positive and the confirmation counter (one more when the raw amount
  equals the one just before, back to 0 on a change) ends at 2 or more; and the counter ends
  at 2 or more exactly when the last three readings that succeeded carry the same raw
  amount. Two equal readings in a row give a counter of 1 and are not enough. With
  \<^verbatim>\<open>min_retries = 3\<close> the answer is valid exactly when all three reads succeed with the
  same positive amount, and the readings 100, 100, 100 give \<^verbatim>\<open>(True, reading)\<close> with raw
  amount 100.
\<close>


theorem verify_token_balance_valid_iff:
  "(fst (fst (verify_token_balance env tok n w)) \<longleftrightarrow>
      (\<forall>a\<in>set (read_amounts env (n_info w) n). 0 < a) \<and>
      2 \<le> spec_confirmations (read_amounts env (n_info w) n))
   \<and> (2 \<le> spec_confirmations (read_amounts env (n_info w) n) \<longleftrightarrow>
      (\<exists>ys a. read_amounts env (n_info w) n = ys @ [a, a, a]))
   \<and> (fst (fst (verify_token_balance env tok 3 w)) \<longleftrightarrow>
      (\<exists>a>0. \<forall>j<3. \<exists>r. account_info_at env (n_info w + j) = Some r \<and> raw_amount r = a))
   \<and> ((\<forall>j<3. \<exists>r. account_info_at env (n_info w + j) = Some r \<and> raw_amount r = 100) \<longrightarrow>
      (\<exists>r. fst (verify_token_balance env tok 3 w) = (True, Some r) \<and> raw_amount r = 100))"
proof -
  have char: "fst (fst (verify_token_balance env tok m w)) \<longleftrightarrow>
      (\<forall>a\<in>set (read_amounts env (n_info w) m). 0 < a) \<and>
      2 \<le> spec_confirmations (read_amounts env (n_info w) m)" for m
    using verify_loop_char [of env tok m "[]" w]
    by (simp add: verify_token_balance_def read_amounts_def spec_confirmations_def rev_map)
  have triple: "2 \<le> spec_confirmations xs \<longleftrightarrow> (\<exists>ys a. xs = ys @ [a, a, a])" for xs
  proof -
    have "(\<exists>a rest. rev xs = a # a # a # rest) \<longleftrightarrow> (\<exists>ys a. xs = ys @ [a, a, a])"
    proof
      assume "\<exists>a rest. rev xs = a # a # a # rest"
      then obtain a rest where "rev xs = a # a # a # rest" by blast
      then have "rev (rev xs) = rev (a # a # a # rest)" by simp
      then have "xs = rev rest @ [a, a, a]" by simp
      then show "\<exists>ys a. xs = ys @ [a, a, a]" by blast
    next
      assume "\<exists>ys a. xs = ys @ [a, a, a]"
      then obtain ys a where "xs = ys @ [a, a, a]" by blast
      then have "rev xs = a # a # a # rev ys" by simp
      then show "\<exists>a rest. rev xs = a # a # a # rest" by blast
    qed
    then show ?thesis by (simp add: spec_confirmations_def streak_ge2)
  qed
  have three: "fst (fst (verify_token_balance env tok 3 w)) \<longleftrightarrow>
      (\<exists>a>0. \<forall>j<3. \<exists>r. account_info_at env (n_info w + j) = Some r \<and> raw_amount r = a)"
  proof
    assume v: "fst (fst (verify_token_balance env tok 3 w))"
    with char [of 3] triple [of "read_amounts env (n_info w) 3"]
    have pos: "\<forall>a\<in>set (read_amounts env (n_info w) 3). 0 < a"
      and "\<exists>ys a. read_amounts env (n_info w) 3 = ys @ [a, a, a]" by simp_all
    then obtain a where a: "\<forall>j<3. \<exists>r. account_info_at env (n_info w + j) = Some r \<and> raw_amount r = a"
      using read_amounts_3 [of env "n_info w"] by blast
    then obtain r where "account_info_at env (n_info w) = Some r" "raw_amount r = a"
      by (auto simp: all_less_3)
    then have "a \<in> set (read_amounts env (n_info w) 3)"
      by (simp add: read_amounts_def reads_from_3)
    with pos a show "\<exists>a>0. \<forall>j<3. \<exists>r. account_info_at env (n_info w + j) = Some r \<and> raw_amount r = a"
      by blast
  next
    assume "\<exists>a>0. \<forall>j<3. \<exists>r. account_info_at env (n_info w + j) = Some r \<and> raw_amount r = a"
    then obtain a r0 r1 r2 where "0 < a"
      "account_info_at env (n_info w) = Some r0" "raw_amount r0 = a"
      "account_info_at env (n_info w + 1) = Some r1" "raw_amount r1 = a"
      "account_info_at env (n_info w + 2) = Some r2" "raw_amount r2 = a"
      by (auto simp: all_less_3)
    from verify_three_equal [OF this(2) this(4) this(6) this(3) this(5) this(7) this(1)]
    show "fst (fst (verify_token_balance env tok 3 w))" by simp
  qed
  have scen: "(\<forall>j<3. \<exists>r. account_info_at env (n_info w + j) = Some r \<and> raw_amount r = 100) \<longrightarrow>
      (\<exists>r. fst (verify_token_balance env tok 3 w) = (True, Some r) \<and> raw_amount r = 100)"
  proof
    assume "\<forall>j<3. \<exists>r. account_info_at env (n_info w + j) = Some r \<and> raw_amount r = 100"
    then obtain r0 r1 r2 where
      "account_info_at env (n_info w) = Some r0" "raw_amount r0 = 100"
      "account_info_at env (n_info w + 1) = Some r1" "raw_amount r1 = 100"
      "account_info_at env (n_info w + 2) = Some r2" "raw_amount r2 = 100"
      by (auto simp: all_less_3)
    from verify_three_equal [OF this(1) this(3) this(5) this(2) this(4) this(6)] this(6)
    show "\<exists>r. fst (verify_token_balance env tok 3 w) = (True, Some r) \<and> raw_amount r = 100"
      by simp
  qed
  from char [of n] triple three scen show ?thesis by blast
qed

lemma reads_100_100_100_at:
  "\<forall>j<3. \<exists>r. account_info_at reads_100_100_100 (n_info world0 + j) = Some r \<and> raw_amount r = 100"
  by (simp add: all_less_3 reads_100_100_100_def script_def world0_def reading_def)

theorem verify_token_balance_valid_iff_witness:
  "account_info_at reads_100_100_100 0 = Some (reading 100)
   \<and> account_info_at reads_100_100_100 1 = Some (reading 100)
   \<and> account_info_at reads_100_100_100 2 = Some (reading 100)
   \<and> (\<exists>r. fst (verify_token_balance reads_100_100_100 ''T'' 3 world0) = (True, Some r)
        \<and> raw_amount r = 100)"
proof -
  have r: "account_info_at reads_100_100_100 0 = Some (reading 100)
      \<and> account_info_at reads_100_100_100 1 = Some (reading 100)
      \<and> account_info_at reads_100_100_100 2 = Some (reading 100)"
    by (simp add: reads_100_100_100_def script_def)
  from verify_token_balance_valid_iff [of reads_100_100_100 "''T''" 3 world0,
      THEN conjunct2, THEN conjunct2, THEN conjunct2, THEN mp, OF reads_100_100_100_at]
  have "\<exists>r. fst (verify_token_balance reads_100_100_100 ''T'' 3 world0) = (True, Some r)
        \<and> raw_amount r = 100" .
  with r show ?thesis by simp
qed

text \<open>
  Claim C1 as first stated fails: the readings 50, 100, 100 hold two consecutive equal
  positive amounts, and the verifier answers \<^verbatim>\<open>(False, reading)\<close>.
\<close>

theorem verify_two_consecutive_counterexample:
  "account_info_at reads_50_100_100 1 = Some (reading 100)
   \<and> account_info_at reads_50_100_100 2 = Some (reading 100)
   \<and> 0 < raw_amount (reading 100)
   \<and> fst (verify_token_balance reads_50_100_100 ''T'' 3 world0) = (False, Some (reading 100))"
  by (simp add: reads_50_100_100_def script_def world0_def reading_def quiet_env_def
        verify_token_balance_def numeral_3_eq_3 get_token_account_info_def emit_def)

text \<open>
  Claim C2. A valid answer always comes with a reading whose raw amount is positive. When
  one of the readings the verifier can get is zero or negative, the answer is
  \<^verbatim>\<open>(False, None)\<close>; and if \<open>j\<close> is the first such reading, exactly \<open>j + 1\<close> reads
  are made, the last things done being that read and the warning.
\<close>


theorem verify_token_balance_nonpositive:
  "(fst (fst (verify_token_balance env tok n w)) \<longrightarrow>
      (\<exists>ti. snd (fst (verify_token_balance env tok n w)) = Some ti \<and> 0 < raw_amount ti))
   \<and> ((\<exists>j<n. \<exists>r. account_info_at env (n_info w + j) = Some r \<and> raw_amount r \<le> 0) \<longrightarrow>
      fst (verify_token_balance env tok n w) = (False, None))
   \<and> (j < n \<and> account_info_at env (n_info w + j) = Some r \<and> raw_amount r \<le> 0 \<and>
      (\<forall>k<j. \<forall>r'. account_info_at env (n_info w + k) = Some r' \<longrightarrow> 0 < raw_amount r') \<longrightarrow>
      fst (verify_token_balance env tok n w) = (False, None) \<and>
      n_info (snd (verify_token_balance env tok n w)) = n_info w + Suc j \<and>
      (\<exists>pre. trace (snd (verify_token_balance env tok n w)) =
         trace w @ pre @ [GetTokenAccountInfo tok (Some r), Log Warning ZeroBalance]))"
proof -
  let ?bad = "\<lambda>j. j < n \<and> (\<exists>r. account_info_at env (n_info w + j) = Some r \<and> raw_amount r \<le> 0)"
  have first: "j < n \<Longrightarrow> account_info_at env (n_info w + j) = Some r \<Longrightarrow> raw_amount r \<le> 0 \<Longrightarrow>
      (\<forall>k<j. \<forall>r'. account_info_at env (n_info w + k) = Some r' \<longrightarrow> 0 < raw_amount r') \<Longrightarrow>
      fst (verify_token_balance env tok n w) = (False, None) \<and>
      n_info (snd (verify_token_balance env tok n w)) = n_info w + Suc j \<and>
      (\<exists>pre. trace (snd (verify_token_balance env tok n w)) =
         trace w @ pre @ [GetTokenAccountInfo tok (Some r), Log Warning ZeroBalance])" for j r
    using verify_loop_nonpositive [of j n env w r tok 0 None]
      verify_loop_nonpositive_trace [of j n env w r tok 0 None]
    by (simp add: verify_token_balance_def)
  have any: "(\<exists>j<n. \<exists>r. account_info_at env (n_info w + j) = Some r \<and> raw_amount r \<le> 0) \<longrightarrow>
      fst (verify_token_balance env tok n w) = (False, None)"
  proof
    assume "\<exists>j<n. \<exists>r. account_info_at env (n_info w + j) = Some r \<and> raw_amount r \<le> 0"
    then have "\<exists>j. ?bad j" by blast
    then obtain j where j: "?bad j" and least: "\<forall>k<j. \<not> ?bad k"
      using exists_least_iff [of ?bad] by blast
    from j obtain r where r: "account_info_at env (n_info w + j) = Some r" "raw_amount r \<le> 0"
      by blast
    have "\<forall>k<j. \<forall>r'. account_info_at env (n_info w + k) = Some r' \<longrightarrow> 0 < raw_amount r'"
    proof (intro allI impI)
      fix k r' assume k: "k < j" and a: "account_info_at env (n_info w + k) = Some r'"
      from k j have "k < n" by simp
      with least k a show "0 < raw_amount r'" by force
    qed
    with first [of j r] j r show "fst (verify_token_balance env tok n w) = (False, None)"
      by blast
  qed
  have valid: "fst (fst (verify_token_balance env tok n w)) \<longrightarrow>
      (\<exists>ti. snd (fst (verify_token_balance env tok n w)) = Some ti \<and> 0 < raw_amount ti)"
    using verify_loop_valid_positive [of env tok n 0 None w]
    by (simp add: verify_token_balance_def)
  from valid any first [of j r] show ?thesis by blast
qed

text \<open>The readings 100, 50, 0, 60, 60 with five reads allowed: three reads are made.\<close>

theorem verify_token_balance_nonpositive_witness:
  "fst (verify_token_balance reads_100_50_0 ''T'' 5 world0) = (False, None)
   \<and> n_info (snd (verify_token_balance reads_100_50_0 ''T'' 5 world0)) = 3"
proof -
  have h: "(2::nat) < 5 \<and> account_info_at reads_100_50_0 (n_info world0 + 2) = Some (reading 0)
      \<and> raw_amount (reading 0) \<le> 0
      \<and> (\<forall>k<2. \<forall>r'. account_info_at reads_100_50_0 (n_info world0 + k) = Some r'
            \<longrightarrow> 0 < raw_amount r')"
    by (auto simp: reads_100_50_0_def script_def world0_def reading_def less_Suc_eq numeral_2_eq_2)
  from verify_token_balance_nonpositive [of reads_100_50_0 "''T''" 5 world0 2 "reading 0",
      THEN conjunct2, THEN conjunct2, THEN mp, OF h]
  show ?thesis by (simp add: world0_def)
qed

subsection \<open>One attempt and the retry loop\<close>

lemma get_session_fields [simp]:
  "cooldown_end_time (get_session s) = cooldown_end_time s"
  "semaphore (get_session s) = semaphore s"
  "buy_price (get_session s) = buy_price s"
  "current_position (get_session s) = current_position s"
  "position_open_time (get_session s) = position_open_time s"
  "trades_executed (get_session s) = trades_executed s"
  "total_profit (get_session s) = total_profit s"
  "sol_mint (get_session s) = sol_mint s"
  "wallet_address (get_session s) = wallet_address s"
  "api_key (get_session s) = api_key s"
  "session (get_session s) = SessionOpen"
  by (cases "session s"; simp add: get_session_def)+

lemma get_session_semaphore [simp]:
  "get_session (s\<lparr>semaphore := n\<rparr>) = (get_session s)\<lparr>semaphore := n\<rparr>"
  by (simp add: get_session_def)

lemma trade_loop_rule:
  assumes run: "trade_loop env tok act pm sl k a s w = Some (ok, s', w')"
    and init: "I a s w"
    and step: "\<And>a s w s1 w1. I a s w \<Longrightarrow>
       attempt_once env tok act pm sl a s w = Some (NextAttempt, s1, w1) \<Longrightarrow> I (Suc a) s1 w1"
    and final: "\<And>a s w b s1 w1. I a s w \<Longrightarrow>
       attempt_once env tok act pm sl a s w = Some (Returned b, s1, w1) \<Longrightarrow> Q b s1 w1"
    and exhausted: "\<And>a s w. I a s w \<Longrightarrow> Q False s w"
  shows "Q ok s' w'"
  using run init
proof (induction k arbitrary: a s w)
  case 0
  then show ?case using exhausted by auto
next
  case (Suc k)
  from Suc.prems(1) obtain out s1 w1 where
    att: "attempt_once env tok act pm sl a s w = Some (out, s1, w1)"
    by (cases "attempt_once env tok act pm sl a s w") auto
  show ?case
  proof (cases out)
    case (Returned b)
    with Suc.prems(1) att have "b = ok" "s1 = s'" "w1 = w'" by simp_all
    with final [OF Suc.prems(2)] att Returned show ?thesis by simp
  next
    case NextAttempt
    with Suc.prems(1) att have "trade_loop env tok act pm sl k (Suc a) s1 w1 = Some (ok, s', w')"
      by simp
    moreover from step [OF Suc.prems(2)] att NextAttempt have "I (Suc a) s1 w1" by simp
    ultimately show ?thesis by (rule Suc.IH)
  qed
qed

lemma attempt_once_stats:
  "attempt_once env tok act pm sl a s w = Some (out, s', w') \<Longrightarrow>
   trades_executed s' = trades_executed s + (if act = BUY \<and> out = Returned True then 1 else 0)
   \<and> (total_profit s' \<noteq> total_profit s \<longrightarrow> act = SELL \<and> out = Returned True)
   \<and> semaphore s' = semaphore s \<and> 0 < semaphore s"
  by (cases act)
     (auto simp: attempt_once_def trade_body_def submit_def settle_buy_def settle_sell_def
        handle_exn_def Let_def
        split: if_splits prod.splits option.splits swap_reply.splits send_reply.splits
          exn.splits flow.splits)

lemma counters_emit [simp]:
  "n_time (emit e w) = n_time w" "n_info (emit e w) = n_info w" "n_sol (emit e w) = n_sol w"
  "n_price (emit e w) = n_price w" "n_swap (emit e w) = n_swap w" "n_send (emit e w) = n_send w"
  "invocations (emit e w) = invocations w"
  by (simp_all add: emit_def)


lemma verify_loop_frame:
  "invocations (snd (verify_loop env tok n c l w)) = invocations w
   \<and> n_time (snd (verify_loop env tok n c l w)) = n_time w
   \<and> n_sol (snd (verify_loop env tok n c l w)) = n_sol w
   \<and> n_price (snd (verify_loop env tok n c l w)) = n_price w
   \<and> n_swap (snd (verify_loop env tok n c l w)) = n_swap w
   \<and> n_send (snd (verify_loop env tok n c l w)) = n_send w"
proof (induction n arbitrary: c l w)
  case 0
  then show ?case by simp
next
  case (Suc n)
  show ?case
  proof (cases "account_info_at env (n_info w)")
    case None
    then show ?thesis
      using Suc.IH [of c l "sleep (3/2) (snd (get_token_account_info env tok w))"]
      by (simp add: get_token_account_info_def sleep_def)
  next
    case (Some ti)
    then show ?thesis
      using Suc.IH [of _ "Some ti" "snd (get_token_account_info env tok w)"]
      by (simp add: get_token_account_info_def logger_def)
  qed
qed

lemma verify_frame [simp]:
  "invocations (snd (verify_token_balance env tok n w)) = invocations w"
  "n_time (snd (verify_token_balance env tok n w)) = n_time w"
  "n_sol (snd (verify_token_balance env tok n w)) = n_sol w"
  "n_price (snd (verify_token_balance env tok n w)) = n_price w"
  "n_swap (snd (verify_token_balance env tok n w)) = n_swap w"
  "n_send (snd (verify_token_balance env tok n w)) = n_send w"
  using verify_loop_frame [of env tok n 0 None w] by (simp_all add: verify_token_balance_def)

lemma sell_params_frame [simp]:
  "sell_params (get_session s) = sell_params s"
  "sell_params (s\<lparr>semaphore := n\<rparr>) = sell_params s"
  "buy_params (get_session s) = buy_params s"
  "buy_params (s\<lparr>semaphore := n\<rparr>) = buy_params s"
  by (simp_all add: sell_params_def buy_params_def fun_eq_iff)

lemma restore_permit:
  "0 < semaphore s \<Longrightarrow> s\<lparr>semaphore := Suc (semaphore s - Suc 0)\<rparr> = s"
  by simp

lemma settle_sell_Some:
  "settle_sell env tok (Some ti) s w =
     (Return True,
      s\<lparr>total_profit := total_profit s +
           (if price_at env (n_price w) \<noteq> 0
            then (price_at env (n_price w) - buy_price s) * ui_amount ti else 0),
        current_position := None, position_open_time := None,
        cooldown_end_time := time_at env (n_time w) + 15\<rparr>,
      w\<lparr>n_price := Suc (n_price w), n_time := Suc (n_time w),
        trace := trace w @ [GetTokenPrice tok (price_at env (n_price w))] @
          (if price_at env (n_price w) \<noteq> 0
           then [Log Info (Sold tok ((price_at env (n_price w) - buy_price s) * ui_amount ti))]
           else [])\<rparr>)"
  by (simp add: settle_sell_def get_token_price_def now_def logger_def emit_def Let_def)





lemma verify_loop_trace:
  assumes "\<And>r. P (GetTokenAccountInfo tok r)" and "P (Sleep (3/2))"
    and "P (Log Warning ZeroBalance)"
  shows "\<exists>vt. trace (snd (verify_loop env tok n c l w)) = trace w @ vt \<and> (\<forall>e\<in>set vt. P e)"
proof (induction n arbitrary: c l w)
  case 0
  then show ?case by simp
next
  case (Suc n)
  let ?a = "account_info_at env (n_info w)"
  let ?w1 = "emit (GetTokenAccountInfo tok ?a) (w\<lparr>n_info := Suc (n_info w)\<rparr>)"
  have g: "get_token_account_info env tok w = (?a, ?w1)"
    by (simp add: get_token_account_info_def)
  show ?case
  proof (cases ?a)
    case None
    from Suc.IH [of c l "sleep (3/2) ?w1"] obtain vt where
      "trace (snd (verify_loop env tok n c l (sleep (3/2) ?w1))) = trace (sleep (3/2) ?w1) @ vt"
      "\<forall>e\<in>set vt. P e" by blast
    then have "trace (snd (verify_loop env tok (Suc n) c l w)) =
        trace w @ ([GetTokenAccountInfo tok ?a, Sleep (3/2)] @ vt)
      \<and> (\<forall>e\<in>set ([GetTokenAccountInfo tok ?a, Sleep (3/2)] @ vt). P e)"
      using g None assms by (simp add: sleep_def)
    then show ?thesis by blast
  next
    case (Some ti)
    show ?thesis
    proof (cases "raw_amount ti \<le> 0")
      case True
      have "trace (snd (verify_loop env tok (Suc n) c l w)) =
          trace w @ [GetTokenAccountInfo tok ?a, Log Warning ZeroBalance]
        \<and> (\<forall>e\<in>set [GetTokenAccountInfo tok ?a, Log Warning ZeroBalance]. P e)"
        using g Some True assms by (simp add: logger_def)
      then show ?thesis by blast
    next
      case False
      let ?c = "case l of Some li \<Rightarrow> if raw_amount ti = raw_amount li then c + 1 else 0
                | None \<Rightarrow> 0"
      from Suc.IH [of ?c "Some ti" ?w1] obtain vt where
        "trace (snd (verify_loop env tok n ?c (Some ti) ?w1)) = trace ?w1 @ vt"
        "\<forall>e\<in>set vt. P e" by blast
      then have "trace (snd (verify_loop env tok (Suc n) c l w)) =
          trace w @ ([GetTokenAccountInfo tok ?a] @ vt)
        \<and> (\<forall>e\<in>set ([GetTokenAccountInfo tok ?a] @ vt). P e)"
        using g Some False assms by simp
      then show ?thesis by blast
    qed
  qed
qed

lemma verify_calm:
  "\<exists>vt. trace (snd (verify_token_balance env tok n w)) = trace w @ vt \<and> (\<forall>e\<in>set vt. calm e)"
  unfolding verify_token_balance_def
  by (rule verify_loop_trace) (simp_all add: calm_def)

lemma submit_Raise:
  assumes "submit env tok act ti params a s w = (Raise e, s1, w1)"
  shows "s1 = s \<and> n_price w1 = n_price w \<and> n_time w1 = n_time w
     \<and> invocations w1 = invocations w
     \<and> (\<exists>io. trace w1 = trace w @ [io] \<and> raised_by io = Some e
          \<or> (\<exists>tx. trace w1 = trace w @ [SwapGet params (api_key s) (SwapTransaction tx), io])
             \<and> raised_by io = Some e)"
  using assms
  by (cases "swap_at env (n_swap w)"; cases "send_at env (n_send w)"; cases act)
     (auto simp: submit_def Let_def emit_def settle_buy_def settle_sell_def sleep_def logger_def
        get_token_price_def now_def
        split: if_splits option.splits)

lemma submit_Continue:
  assumes "submit env tok act ti params a s w = (Continue, s1, w1)"
  shows "s1 = s \<and> n_price w1 = n_price w \<and> n_time w1 = n_time w
     \<and> invocations w1 = invocations w
     \<and> (\<exists>tx m. is_transient m \<and> trace w1 = trace w @
          [SwapGet params (api_key s) (SwapTransaction tx), SendTransaction tx (SendError m),
           Log Warning (TransientRetry a max_retries), Sleep (retry_delay * of_nat (a + 1))])"
  using assms
  by (cases "swap_at env (n_swap w)"; cases "send_at env (n_send w)"; cases act)
     (auto simp: submit_def Let_def emit_def settle_buy_def settle_sell_def sleep_def logger_def
        get_token_price_def now_def
        split: if_splits option.splits)

lemma settle_buy_eq:
  "settle_buy env tok s w =
     (if price_at env (n_price w) = 0 then
        (Return False, s\<lparr>buy_price := 0\<rparr>,
         w\<lparr>n_price := Suc (n_price w),
           trace := trace w @ [GetTokenPrice tok 0, Log Error BuyPriceFailed]\<rparr>)
      else
        (Return True,
         s\<lparr>buy_price := price_at env (n_price w), current_position := Some tok,
           position_open_time := Some (time_at env (n_time w)),
           trades_executed := trades_executed s + 1\<rparr>,
         w\<lparr>n_price := Suc (n_price w), n_time := Suc (n_time w),
           trace := trace w @ [GetTokenPrice tok (price_at env (n_price w)),
             Log Info (Bought tok (price_at env (n_price w)))]\<rparr>))"
  by (simp add: settle_buy_def get_token_price_def now_def logger_def emit_def Let_def)

lemma submit_trace:
  assumes "submit env tok act ti params a s w = (f, s1, w1)"
  shows "\<exists>added. trace w1 = trace w @ added \<and> Acquire \<notin> set added
     \<and> (f = Return True \<longrightarrow> (\<forall>e\<in>set added. \<not> terminal_failure e))
     \<and> invocations w1 = invocations w"
proof (cases "swap_at env (n_swap w)")
  case (SwapRaised e)
  with assms show ?thesis by (auto simp: submit_def Let_def emit_def)
next
  case (SwapUnsuccessful m)
  with assms show ?thesis by (auto simp: submit_def Let_def emit_def logger_def)
next
  case (SwapUndecodable m)
  with assms show ?thesis by (auto simp: submit_def Let_def emit_def)
next
  case (SwapTransaction tx)
  note sw = this
  show ?thesis
  proof (cases "send_at env (n_send w)")
    case (SendRaised e)
    with assms sw show ?thesis by (auto simp: submit_def Let_def emit_def)
  next
    case (SendError m)
    with assms sw show ?thesis
      by (auto simp: submit_def Let_def emit_def logger_def sleep_def split: if_splits)
  next
    case SendAccepted
    show ?thesis
    proof (cases act)
      case BUY
      with assms sw SendAccepted show ?thesis
        by (auto simp: submit_def Let_def emit_def settle_buy_eq split: if_splits)
    next
      case SELL
      show ?thesis
      proof (cases ti)
        case None
        with assms sw SendAccepted SELL show ?thesis
          by (auto simp: submit_def Let_def emit_def settle_sell_def get_token_price_def
              now_def)
      next
        case (Some t)
        with assms sw SendAccepted SELL show ?thesis
          by (auto simp: submit_def Let_def emit_def settle_sell_Some)
      qed
    qed
  qed
qed

lemma calm_simps [simp]:
  "calm (SwapGet p k (SwapTransaction tx))" "calm (SendTransaction tx SendAccepted)"
  "calm (GetSolBalance b) \<longleftrightarrow> \<not> b < 1 / 10000"
  "calm (SendTransaction tx (SendError m)) \<longleftrightarrow> is_transient m"
  "calm (GetTokenPrice tok pr)" "calm (GetTokenAccountInfo tok ti)" "calm (Sleep d)"
  "calm (Log Warning lm)" "calm Release" "\<not> calm Acquire"
  by (simp_all add: calm_def)

lemma calm_D: "calm e \<Longrightarrow> e \<noteq> Acquire \<and> \<not> terminal_failure e"
  by (simp add: calm_def)

lemma submit_Raise_mid:
  assumes "submit env tok act ti params a s w = (Raise e, s1, w1)"
  shows "\<exists>mid io. trace w1 = trace w @ mid @ [io] \<and> raised_by io = Some e
     \<and> (\<forall>x\<in>set mid. calm x)"
proof -
  from submit_Raise [OF assms] obtain io where
    "trace w1 = trace w @ [] @ [io] \<and> raised_by io = Some e
     \<or> (\<exists>tx. trace w1 = trace w @ [SwapGet params (api_key s) (SwapTransaction tx)] @ [io])
        \<and> raised_by io = Some e" by auto
  then show ?thesis
  proof
    assume "trace w1 = trace w @ [] @ [io] \<and> raised_by io = Some e"
    then have "trace w1 = trace w @ [] @ [io] \<and> raised_by io = Some e
      \<and> (\<forall>x\<in>set []. calm x)" by simp
    then show ?thesis by blast
  next
    assume "(\<exists>tx. trace w1 = trace w @ [SwapGet params (api_key s) (SwapTransaction tx)] @ [io])
        \<and> raised_by io = Some e"
    then obtain tx where
      "trace w1 = trace w @ [SwapGet params (api_key s) (SwapTransaction tx)] @ [io]
       \<and> raised_by io = Some e
       \<and> (\<forall>x\<in>set [SwapGet params (api_key s) (SwapTransaction tx)]. calm x)" by auto
    then show ?thesis by blast
  qed
qed

lemma submit_Continue_mid:
  assumes "submit env tok act ti params a s w = (Continue, s1, w1)"
  shows "\<exists>mid tx m. trace w1 = trace w @ mid @
          [SendTransaction tx (SendError m),
           Log Warning (TransientRetry a max_retries), Sleep (retry_delay * of_nat (a + 1))]
     \<and> is_transient m \<and> (\<forall>x\<in>set mid. calm x)"
proof -
  from submit_Continue [OF assms] obtain tx m where
    "trace w1 = trace w @ [SwapGet params (api_key s) (SwapTransaction tx)] @
          [SendTransaction tx (SendError m),
           Log Warning (TransientRetry a max_retries), Sleep (retry_delay * of_nat (a + 1))]
     \<and> is_transient m \<and> (\<forall>x\<in>set [SwapGet params (api_key s) (SwapTransaction tx)]. calm x)"
    by auto
  then show ?thesis by blast
qed

lemma trade_body_flow:
  assumes "trade_body env tok act pm sl a s w = (f, s1, w1)"
  shows "(\<exists>pre params ti w0. submit env tok act ti params a (get_session s) w0 = (f, s1, w1)
        \<and> trace w0 = trace w @ pre \<and> (\<forall>e\<in>set pre. calm e)
        \<and> invocations w0 = invocations w \<and> n_price w0 = n_price w
        \<and> (act = SELL \<longrightarrow> n_time w0 = n_time w))
     \<or> (f = Return False \<and> s1 = get_session s \<and> invocations w1 = invocations w
        \<and> (\<exists>added. trace w1 = trace w @ added \<and> Acquire \<notin> set added))"
proof (cases act)
  case BUY
  let ?t = "time_at env (n_time w)"
  let ?b = "sol_balance_at env (n_sol w)"
  let ?w0 = "w\<lparr>n_time := Suc (n_time w), n_sol := Suc (n_sol w),
      trace := trace w @ [GetSolBalance ?b]\<rparr>"
  consider (cool) "?t < cooldown_end_time s"
    | (poor) "\<not> ?t < cooldown_end_time s" "?b < 1 / 10000"
    | (go) "\<not> ?t < cooldown_end_time s" "\<not> ?b < 1 / 10000" by blast
  then show ?thesis
  proof cases
    case cool
    with assms BUY have "f = Return False \<and> s1 = get_session s \<and> invocations w1 = invocations w
        \<and> trace w1 = trace w @ [Log Info (CooldownActive (cooldown_end_time s - ?t))]
        \<and> Acquire \<notin> set [Log Info (CooldownActive (cooldown_end_time s - ?t))]"
      by (auto simp: trade_body_def now_def logger_def emit_def Let_def)
    then show ?thesis by blast
  next
    case poor
    with assms BUY have "f = Return False \<and> s1 = get_session s \<and> invocations w1 = invocations w
        \<and> trace w1 = trace w @ [GetSolBalance ?b, Log Error InsufficientSol]
        \<and> Acquire \<notin> set [GetSolBalance ?b, Log Error InsufficientSol]"
      by (auto simp: trade_body_def now_def get_sol_balance_def logger_def emit_def Let_def)
    then show ?thesis by blast
  next
    case go
    with assms BUY have "submit env tok act None (buy_params s tok ?b) a (get_session s) ?w0
        = (f, s1, w1)
      \<and> trace ?w0 = trace w @ [GetSolBalance ?b] \<and> (\<forall>e\<in>set [GetSolBalance ?b]. calm e)
      \<and> invocations ?w0 = invocations w \<and> n_price ?w0 = n_price w
      \<and> (act = SELL \<longrightarrow> n_time ?w0 = n_time w)"
      by (simp add: trade_body_def now_def get_sol_balance_def emit_def Let_def)
    then show ?thesis by blast
  qed
next
  case SELL
  obtain v ti w0 where vr: "verify_token_balance env tok 3 w = ((v, ti), w0)"
    by (cases "verify_token_balance env tok 3 w") auto
  from verify_calm [of env tok 3 w] vr obtain vt where
    vt: "trace w0 = trace w @ vt" "\<forall>e\<in>set vt. calm e" by auto
  have fr: "invocations w0 = invocations w" "n_price w0 = n_price w" "n_time w0 = n_time w"
    using verify_frame [of env tok 3 w] vr by simp_all
  have na: "Acquire \<notin> set vt" using vt(2) calm_D by blast
  consider (bad) "ti = None \<or> \<not> v"
    | (zero) t where "ti = Some t" "v" "raw_amount t \<le> 0"
    | (go) t where "ti = Some t" "v" "\<not> raw_amount t \<le> 0"
    by (cases ti) auto
  then show ?thesis
  proof cases
    case bad
    with assms SELL vr have "f = Return False \<and> s1 = get_session s
        \<and> w1 = logger Error VerifyFailedForSale w0"
      by (auto simp: trade_body_def Let_def split: option.splits)
    with vt na fr have "f = Return False \<and> s1 = get_session s \<and> invocations w1 = invocations w
        \<and> trace w1 = trace w @ (vt @ [Log Error VerifyFailedForSale])
        \<and> Acquire \<notin> set (vt @ [Log Error VerifyFailedForSale])"
      by (simp add: logger_def)
    then show ?thesis by blast
  next
    case zero
    with assms SELL vr have "f = Return False \<and> s1 = get_session s
        \<and> w1 = logger Error NoTokenBalance w0"
      by (auto simp: trade_body_def Let_def)
    with vt na fr have "f = Return False \<and> s1 = get_session s \<and> invocations w1 = invocations w
        \<and> trace w1 = trace w @ (vt @ [Log Error NoTokenBalance])
        \<and> Acquire \<notin> set (vt @ [Log Error NoTokenBalance])"
      by (simp add: logger_def)
    then show ?thesis by blast
  next
    case go
    with assms SELL vr have "submit env tok act ti (sell_params s tok (raw_amount t) pm sl) a
        (get_session s) w0 = (f, s1, w1)"
      by (simp add: trade_body_def Let_def)
    with vt fr show ?thesis by blast
  qed
qed

lemma permit_back:
  "0 < semaphore s \<Longrightarrow>
   (get_session (s\<lparr>semaphore := semaphore s - 1\<rparr>))\<lparr>semaphore :=
      semaphore (get_session (s\<lparr>semaphore := semaphore s - 1\<rparr>)) + 1\<rparr> = get_session s"
  by (simp add: get_session_def)

lemma attempt_once_segment:
  assumes "attempt_once env tok act pm sl a s w = Some (out, s', w')"
  shows "\<exists>seg. trace w' = trace w @ Acquire # seg \<and> Acquire \<notin> set seg
     \<and> invocations w' = invocations w
     \<and> (out = NextAttempt \<longrightarrow> retry_tail a seg \<and> (\<forall>e\<in>set seg. \<not> terminal_failure e)
          \<and> s' = get_session s \<and> n_price w' = n_price w
          \<and> (act = SELL \<longrightarrow> n_time w' = n_time w))
     \<and> (out = Returned True \<longrightarrow> (\<forall>e\<in>set seg. \<not> terminal_failure e))"
proof -
  let ?s0 = "s\<lparr>semaphore := semaphore s - 1\<rparr>"
  let ?w0 = "emit Acquire w"
  from assms have sem: "0 < semaphore s"
    by (simp add: attempt_once_def split: if_splits)
  obtain f s1 w1 where tb: "trade_body env tok act pm sl a ?s0 ?w0 = (f, s1, w1)"
    by (cases "trade_body env tok act pm sl a ?s0 ?w0")
  have t0: "trace ?w0 = trace w @ [Acquire]" "invocations ?w0 = invocations w"
    "n_price ?w0 = n_price w" "n_time ?w0 = n_time w" by simp_all
  show ?thesis
  proof (cases f)
    case (Return b)
    with assms sem tb have o: "out = Returned b" "w' = emit Release w1"
      by (simp_all add: attempt_once_def Let_def)
    from trade_body_flow [OF tb] show ?thesis
    proof
      assume "\<exists>pre params ti w0. submit env tok act ti params a (get_session ?s0) w0 = (f, s1, w1)
        \<and> trace w0 = trace ?w0 @ pre \<and> (\<forall>e\<in>set pre. calm e)
        \<and> invocations w0 = invocations ?w0 \<and> n_price w0 = n_price ?w0
        \<and> (act = SELL \<longrightarrow> n_time w0 = n_time ?w0)"
      then obtain pre params ti w0 where
        sub: "submit env tok act ti params a (get_session ?s0) w0 = (f, s1, w1)"
        and pre: "trace w0 = trace ?w0 @ pre" "\<forall>e\<in>set pre. calm e"
        and inv: "invocations w0 = invocations ?w0" by blast
      from submit_trace [OF sub] obtain added where
        ad: "trace w1 = trace w0 @ added" "Acquire \<notin> set added"
          "f = Return True \<longrightarrow> (\<forall>e\<in>set added. \<not> terminal_failure e)"
          "invocations w1 = invocations w0" by blast
      have "trace w' = trace w @ Acquire # (pre @ added @ [Release])
          \<and> Acquire \<notin> set (pre @ added @ [Release])
          \<and> invocations w' = invocations w
          \<and> (out = Returned True \<longrightarrow> (\<forall>e\<in>set (pre @ added @ [Release]). \<not> terminal_failure e))"
        using o pre ad inv Return t0 calm_D by auto
      with o show ?thesis by blast
    next
      assume "f = Return False \<and> s1 = get_session ?s0 \<and> invocations w1 = invocations ?w0
        \<and> (\<exists>added. trace w1 = trace ?w0 @ added \<and> Acquire \<notin> set added)"
      then obtain added where "b = False" "invocations w1 = invocations ?w0"
        "trace w1 = trace ?w0 @ added" "Acquire \<notin> set added" using Return by auto
      then have "trace w' = trace w @ Acquire # (added @ [Release])
          \<and> Acquire \<notin> set (added @ [Release]) \<and> invocations w' = invocations w"
        using o by simp
      with o \<open>b = False\<close> show ?thesis by blast
    qed
  next
    case Continue
    with assms sem tb have o: "out = NextAttempt" "w' = emit Release w1"
      "s' = s1\<lparr>semaphore := semaphore s1 + 1\<rparr>"
      by (simp_all add: attempt_once_def Let_def)
    from trade_body_flow [OF tb] Continue obtain pre params ti w0 where
      sub: "submit env tok act ti params a (get_session ?s0) w0 = (Continue, s1, w1)"
      and pre: "trace w0 = trace ?w0 @ pre" "\<forall>e\<in>set pre. calm e"
      and inv: "invocations w0 = invocations ?w0" "n_price w0 = n_price ?w0"
        "act = SELL \<longrightarrow> n_time w0 = n_time ?w0" by blast
    from submit_Continue [OF sub] have fr: "s1 = get_session ?s0" "n_price w1 = n_price w0"
      "n_time w1 = n_time w0" "invocations w1 = invocations w0" by simp_all
    from submit_Continue_mid [OF sub] obtain mid tx m where
      mid: "trace w1 = trace w0 @ mid @ [SendTransaction tx (SendError m),
           Log Warning (TransientRetry a max_retries), Sleep (retry_delay * of_nat (a + 1))]"
        "is_transient m" "\<forall>x\<in>set mid. calm x" by blast
    let ?seg = "(pre @ mid) @ [SendTransaction tx (SendError m),
           Log Warning (TransientRetry a max_retries), Sleep (retry_delay * of_nat (a + 1)),
           Release]"
    have tr: "trace w' = trace w @ Acquire # ?seg" using o mid pre by simp
    have na: "Acquire \<notin> set ?seg" "\<forall>e\<in>set ?seg. \<not> terminal_failure e"
      using pre(2) mid(2,3) calm_D by auto
    have rt: "retry_tail a ?seg" unfolding retry_tail_def using mid(2) by blast
    have st: "s' = get_session s" using o(3) fr(1) permit_back [OF sem] by simp
    from tr na rt st o fr inv show ?thesis by (intro exI [of _ ?seg]) simp
  next
    case (Raise e)
    from trade_body_flow [OF tb] Raise obtain pre params ti w0 where
      sub: "submit env tok act ti params a (get_session ?s0) w0 = (Raise e, s1, w1)"
      and pre: "trace w0 = trace ?w0 @ pre" "\<forall>e\<in>set pre. calm e"
      and inv: "invocations w0 = invocations ?w0" "n_price w0 = n_price ?w0"
        "act = SELL \<longrightarrow> n_time w0 = n_time ?w0" by blast
    from submit_Raise [OF sub] have fr: "s1 = get_session ?s0" "n_price w1 = n_price w0"
      "n_time w1 = n_time w0" "invocations w1 = invocations w0" by simp_all
    from submit_Raise_mid [OF sub] obtain mid io where
      mid: "trace w1 = trace w0 @ mid @ [io]" "raised_by io = Some e" "\<forall>x\<in>set mid. calm x"
      by blast
    have io: "io \<noteq> Acquire" using mid(2) by (cases io) auto
    have io_net: "\<not> terminal_failure io"
      if "e = ClientError m \<or> e = TimeoutError m" for m
    proof (cases io)
      case (SwapGet p k r)
      with mid(2) that show ?thesis by (cases r) auto
    next
      case (SendTransaction tx r)
      with mid(2) that show ?thesis by (cases r) auto
    qed (use mid(2) in auto)
    from assms sem tb Raise have h: "handle_exn e a (emit Release w1) = (out, w')"
      and s': "s' = s1\<lparr>semaphore := semaphore s1 + 1\<rparr>"
      by (auto simp: attempt_once_def Let_def split: prod.splits)
    have st: "s' = get_session s" using s' fr(1) permit_back [OF sem] by simp
    consider (other) m where "e = OtherError m"
      | (last) m where "e = ClientError m \<or> e = TimeoutError m" "\<not> a < max_retries"
      | (again) m where "e = ClientError m \<or> e = TimeoutError m" "a < max_retries"
      by (cases e) auto
    then show ?thesis
    proof cases
      case other
      with h have o: "out = Returned False"
        "w' = logger Error (TradeExecutionFailed m) (emit Release w1)"
        by (auto simp: handle_exn_def)
      let ?seg = "(pre @ mid) @ [io, Release, Log Error (TradeExecutionFailed m)]"
      have "trace w' = trace w @ Acquire # ?seg" using o mid pre by (simp add: logger_def)
      moreover have "Acquire \<notin> set ?seg" using pre(2) mid(3) io calm_D by auto
      moreover have "invocations w' = invocations w" using o fr inv by (simp add: logger_def)
      ultimately show ?thesis using o by (intro exI [of _ ?seg]) simp
    next
      case last
      with h have o: "out = Returned False"
        "w' = logger Error (NetworkFailure max_retries m) (emit Release w1)"
        by (auto simp: handle_exn_def Let_def)
      let ?seg = "(pre @ mid) @ [io, Release, Log Error (NetworkFailure max_retries m)]"
      have "trace w' = trace w @ Acquire # ?seg" using o mid pre by (simp add: logger_def)
      moreover have "Acquire \<notin> set ?seg" using pre(2) mid(3) io calm_D by auto
      moreover have "invocations w' = invocations w" using o fr inv by (simp add: logger_def)
      ultimately show ?thesis using o by (intro exI [of _ ?seg]) simp
    next
      case again
      with h have o: "out = NextAttempt"
        "w' = sleep (retry_delay * of_nat (a + 1))
                (logger Warning (NetworkRetry m a max_retries) (emit Release w1))"
        by (auto simp: handle_exn_def Let_def)
      let ?seg = "(pre @ mid) @ [io, Release, Log Warning (NetworkRetry m a max_retries),
          Sleep (retry_delay * of_nat (a + 1))]"
      have tr: "trace w' = trace w @ Acquire # ?seg"
        using o mid pre by (simp add: logger_def sleep_def)
      have na: "Acquire \<notin> set ?seg" "\<forall>e\<in>set ?seg. \<not> terminal_failure e"
        using pre(2) mid(3) io io_net [OF again(1)] calm_D by auto
      have rt: "retry_tail a ?seg" unfolding retry_tail_def using mid(2) again by blast
      have c: "invocations w' = invocations w" "n_price w' = n_price w"
        "act = SELL \<longrightarrow> n_time w' = n_time w"
        using o fr inv by (simp_all add: logger_def sleep_def)
      from tr na rt st o c show ?thesis by (intro exI [of _ ?seg]) simp
    qed
  qed
qed



lemma trade_loop_segments:
  "trade_loop env tok act pm sl k a s w = Some (ok, s', w') \<Longrightarrow>
   \<exists>segs. length segs \<le> k \<and> (0 < k \<longrightarrow> segs \<noteq> [])
     \<and> trace w' = trace w @ concat (map ((#) Acquire) segs)
     \<and> (\<forall>seg\<in>set segs. Acquire \<notin> set seg)
     \<and> (\<forall>i. Suc i < length segs \<longrightarrow> retry_tail (a + i) (segs ! i))
     \<and> (\<forall>i<length segs. (\<exists>e\<in>set (segs ! i). terminal_failure e) \<longrightarrow>
           Suc i = length segs \<and> \<not> ok)
     \<and> invocations w' = invocations w"
proof (induction k arbitrary: a s w)
  case 0
  then have "w' = w" by simp
  then show ?case by (intro exI [of _ "[]"]) simp
next
  case (Suc k)
  from Suc.prems obtain out s1 w1 where
    att: "attempt_once env tok act pm sl a s w = Some (out, s1, w1)"
    by (cases "attempt_once env tok act pm sl a s w") auto
  from attempt_once_segment [OF att] obtain seg where
    seg: "trace w1 = trace w @ Acquire # seg" "Acquire \<notin> set seg"
      "invocations w1 = invocations w"
      "out = NextAttempt \<longrightarrow> retry_tail a seg \<and> (\<forall>e\<in>set seg. \<not> terminal_failure e)"
      "out = Returned True \<longrightarrow> (\<forall>e\<in>set seg. \<not> terminal_failure e)" by blast
  show ?case
  proof (cases out)
    case (Returned b)
    with Suc.prems att have e: "b = ok" "w1 = w'" by simp_all
    have fl: "\<forall>i<length [seg]. (\<exists>e\<in>set ([seg] ! i). terminal_failure e) \<longrightarrow>
           Suc i = length [seg] \<and> \<not> ok"
      using seg(5) Returned e by (cases ok) auto
    have "length [seg] \<le> Suc k \<and> (0 < Suc k \<longrightarrow> [seg] \<noteq> [])
       \<and> trace w' = trace w @ concat (map ((#) Acquire) [seg])
       \<and> (\<forall>x\<in>set [seg]. Acquire \<notin> set x)
       \<and> (\<forall>i. Suc i < length [seg] \<longrightarrow> retry_tail (a + i) ([seg] ! i))
       \<and> invocations w' = invocations w"
      using seg(1,2,3) e by simp
    with fl show ?thesis by blast
  next
    case NextAttempt
    with Suc.prems att have "trade_loop env tok act pm sl k (Suc a) s1 w1 = Some (ok, s', w')"
      by simp
    from Suc.IH [OF this] obtain segs where
      segs: "length segs \<le> k" "trace w' = trace w1 @ concat (map ((#) Acquire) segs)"
        "\<forall>seg\<in>set segs. Acquire \<notin> set seg"
        "\<forall>i. Suc i < length segs \<longrightarrow> retry_tail (Suc a + i) (segs ! i)"
        "\<forall>i<length segs. (\<exists>e\<in>set (segs ! i). terminal_failure e) \<longrightarrow>
           Suc i = length segs \<and> \<not> ok"
        "invocations w' = invocations w1" by blast
    have rt: "\<forall>i. Suc i < length (seg # segs) \<longrightarrow> retry_tail (a + i) ((seg # segs) ! i)"
    proof (intro allI impI)
      fix i assume "Suc i < length (seg # segs)"
      then show "retry_tail (a + i) ((seg # segs) ! i)"
        using seg(4) NextAttempt segs(4) by (cases i) auto
    qed
    have fl: "\<forall>i<length (seg # segs). (\<exists>e\<in>set ((seg # segs) ! i). terminal_failure e) \<longrightarrow>
           Suc i = length (seg # segs) \<and> \<not> ok"
    proof (intro allI impI)
      fix i assume "i < length (seg # segs)" "\<exists>e\<in>set ((seg # segs) ! i). terminal_failure e"
      then show "Suc i = length (seg # segs) \<and> \<not> ok"
        using seg(4) NextAttempt segs(5) by (cases i) auto
    qed
    have "length (seg # segs) \<le> Suc k \<and> (0 < Suc k \<longrightarrow> seg # segs \<noteq> [])
       \<and> trace w' = trace w @ concat (map ((#) Acquire) (seg # segs))
       \<and> (\<forall>x\<in>set (seg # segs). Acquire \<notin> set x)
       \<and> invocations w' = invocations w"
      using segs(1,2,3,6) seg(1,2,3) by simp
    with rt fl show ?thesis by blast
  qed
qed


subsection \<open>Buys, sells and the monitor\<close>

lemma py_int_fee [simp]: "py_int (1 / 10000 * 10 ^ 9) = 100000"
  by (simp add: py_int_def)

lemma trade_body_buy_frame:
  "trade_body env tok BUY pm sl a s (w\<lparr>invocations := x\<rparr>) =
     (case trade_body env tok BUY pm' sl' a s w of
        (f, s1, w1) \<Rightarrow> (f, s1, w1\<lparr>invocations := x\<rparr>))"
  by (cases "swap_at env (n_swap w)"; cases "send_at env (n_send w)")
     (simp_all add: trade_body_def now_def get_sol_balance_def submit_def settle_buy_eq
        logger_def sleep_def emit_def Let_def)

lemma handle_exn_frame:
  "handle_exn e a (w\<lparr>invocations := x\<rparr>) =
     (case handle_exn e a w of (out, w1) \<Rightarrow> (out, w1\<lparr>invocations := x\<rparr>))"
  by (cases e) (simp_all add: handle_exn_def logger_def sleep_def emit_def Let_def)

lemma attempt_once_buy_frame:
  "attempt_once env tok BUY pm sl a s (w\<lparr>invocations := x\<rparr>) =
     map_option (\<lambda>(out, s1, w1). (out, s1, w1\<lparr>invocations := x\<rparr>))
       (attempt_once env tok BUY pm' sl' a s w)"
proof -
  have e: "emit Acquire (w\<lparr>invocations := x\<rparr>) = (emit Acquire w)\<lparr>invocations := x\<rparr>"
    by (simp add: emit_def)
  obtain f s1 w1 where tb: "trade_body env tok BUY pm' sl' a (s\<lparr>semaphore := semaphore s - 1\<rparr>)
      (emit Acquire w) = (f, s1, w1)"
    by (cases "trade_body env tok BUY pm' sl' a (s\<lparr>semaphore := semaphore s - 1\<rparr>) (emit Acquire w)")
  have r: "emit Release (w1\<lparr>invocations := x\<rparr>) = (emit Release w1)\<lparr>invocations := x\<rparr>"
    by (simp add: emit_def)
  show ?thesis
    unfolding attempt_once_def e trade_body_buy_frame [where pm' = pm' and sl' = sl'] tb
    by (cases f) (simp_all add: Let_def r handle_exn_frame split: prod.splits)
qed

lemma trade_loop_buy_frame:
  "trade_loop env tok BUY pm sl k a s (w\<lparr>invocations := x\<rparr>) =
     map_option (\<lambda>(ok, s1, w1). (ok, s1, w1\<lparr>invocations := x\<rparr>))
       (trade_loop env tok BUY pm' sl' k a s w)"
proof (induction k arbitrary: a s w)
  case 0
  then show ?case by simp
next
  case (Suc k)
  show ?case
  proof (cases "attempt_once env tok BUY pm' sl' a s w")
    case None
    then show ?thesis by (simp add: attempt_once_buy_frame [where pm' = pm' and sl' = sl'])
  next
    case (Some r)
    obtain out s1 w1 where r: "r = (out, s1, w1)" by (cases r)
    show ?thesis
      using Some r Suc.IH [of "Suc a" s1 w1]
      by (cases out) (simp_all add: attempt_once_buy_frame [where pm' = pm' and sl' = sl'])
  qed
qed

lemma execute_trade_buy_independent:
  "map_option (\<lambda>(ok, s', w'). (ok, s', forget w')) (execute_trade env tok BUY pm sl s w) =
   map_option (\<lambda>(ok, s', w'). (ok, s', forget w')) (execute_trade env tok BUY pm' sl' s w)"
proof -
  have "map_option (\<lambda>(ok, s', w'). (ok, s', forget w'))
          (trade_loop env tok BUY p q k a s (w\<lparr>invocations := x\<rparr>)) =
        map_option (\<lambda>(ok, s', w'). (ok, s', forget w')) (trade_loop env tok BUY pm sl k a s w)"
    for p q k a x
    unfolding trade_loop_buy_frame [where pm' = pm and sl' = sl]
    by (cases "trade_loop env tok BUY pm sl k a s w") (auto simp: forget_def)
  then show ?thesis unfolding execute_trade_def by (simp only:)
qed

lemma execute_trade_cooldown:
  assumes "0 < semaphore s" and "time_at env (n_time w) < cooldown_end_time s"
  shows "execute_trade env tok BUY pm sl s w =
     Some (False, get_session s,
       w\<lparr>n_time := Suc (n_time w),
         trace := trace w @ [Acquire,
           Log Info (CooldownActive (cooldown_end_time s - time_at env (n_time w))), Release],
         invocations := invocations w @ [(tok, BUY, pm, sl)]\<rparr>)"
  using assms
  by (simp add: execute_trade_def max_retries_def attempt_once_def trade_body_def now_def
      logger_def emit_def numeral_eq_Suc)

lemma execute_trade_blocked:
  "semaphore s = 0 \<Longrightarrow> execute_trade env tok act pm sl s w = None"
  by (simp add: execute_trade_def max_retries_def attempt_once_def numeral_eq_Suc)

text \<open>
  Claim C4. A BUY called while the clock reads less than \<^verbatim>\<open>cooldown_end_time\<close> returns
  \<^verbatim>\<open>False\<close> in its first attempt: it takes a permit, logs the cooldown and gives the permit
  back. No request is sent, no retry is made, the number of free permits is what it was, and
  of the bot only the session field may have changed. (With no permit free the call waits
  and starts nothing.)
\<close>


theorem buy_during_cooldown:
  assumes "time_at env (n_time w) < cooldown_end_time s"
  shows "(0 < semaphore s \<longrightarrow>
       execute_trade env tok BUY pm sl s w =
         Some (False, get_session s,
           w\<lparr>n_time := Suc (n_time w),
             trace := trace w @ [Acquire,
               Log Info (CooldownActive (cooldown_end_time s - time_at env (n_time w))),
               Release],
             invocations := invocations w @ [(tok, BUY, pm, sl)]\<rparr>))
     \<and> (semaphore s = 0 \<longrightarrow> execute_trade env tok BUY pm sl s w = None)
     \<and> semaphore (get_session s) = semaphore s
     \<and> current_position (get_session s) = current_position s
     \<and> buy_price (get_session s) = buy_price s
     \<and> cooldown_end_time (get_session s) = cooldown_end_time s
     \<and> trades_executed (get_session s) = trades_executed s
     \<and> total_profit (get_session s) = total_profit s"
  using execute_trade_cooldown [OF _ assms] execute_trade_blocked by simp

text \<open>At time 100 with a cooldown until 115, in the working environment.\<close>

theorem buy_during_cooldown_witness:
  "time_at market_env (n_time world0) < cooldown_end_time cooling_bot
   \<and> execute_trade market_env ''T'' BUY 1 2000 cooling_bot world0 =
       Some (False, cooling_bot\<lparr>session := SessionOpen\<rparr>,
         world0\<lparr>n_time := 1,
           trace := [Acquire, Log Info (CooldownActive 15), Release],
           invocations := [(''T'', BUY, 1, 2000)]\<rparr>)"
proof -
  have h: "time_at market_env (n_time world0) < cooldown_end_time cooling_bot"
    by (simp add: market_env_def world0_def cooling_bot_def)
  have p: "0 < semaphore cooling_bot" by (simp add: cooling_bot_def bot0_def)
  from buy_during_cooldown [OF h, of "''T''" 1 2000, THEN conjunct1, THEN mp, OF p]
  have "execute_trade market_env ''T'' BUY 1 2000 cooling_bot world0 =
       Some (False, cooling_bot\<lparr>session := SessionOpen\<rparr>,
         world0\<lparr>n_time := 1,
           trace := [Acquire, Log Info (CooldownActive 15), Release],
           invocations := [(''T'', BUY, 1, 2000)]\<rparr>)"
    by (simp add: market_env_def world0_def cooling_bot_def bot0_def get_session_def)
  with h show ?thesis by simp
qed

lemma get_session_idem [simp]: "get_session (get_session s) = get_session s"
  by (simp add: get_session_def)

lemma attempt_once_config:
  "attempt_once env tok act pm sl a s w = Some (out, s', w') \<Longrightarrow>
   sol_mint s' = sol_mint s \<and> wallet_address s' = wallet_address s \<and> api_key s' = api_key s"
  by (cases act)
     (auto simp: attempt_once_def trade_body_def submit_def settle_buy_eq settle_sell_def
        handle_exn_def Let_def
        split: if_splits prod.splits option.splits swap_reply.splits send_reply.splits
          exn.splits flow.splits)

lemma execute_trade_stats:
  assumes "execute_trade env tok act pm sl s w = Some (ok, s', w')"
  shows "trades_executed s' = trades_executed s + (if act = BUY \<and> ok then 1 else 0)
     \<and> (total_profit s' \<noteq> total_profit s \<longrightarrow> act = SELL \<and> ok)
     \<and> semaphore s' = semaphore s"
proof (rule trade_loop_rule [OF assms [unfolded execute_trade_def],
    where I = "\<lambda>a sj wj. trades_executed sj = trades_executed s
      \<and> total_profit sj = total_profit s \<and> semaphore sj = semaphore s"])
  show "trades_executed s = trades_executed s \<and> total_profit s = total_profit s
    \<and> semaphore s = semaphore s" by simp
next
  fix a sj wj s1 w1
  assume "trades_executed sj = trades_executed s \<and> total_profit sj = total_profit s
      \<and> semaphore sj = semaphore s"
    and "attempt_once env tok act pm sl a sj wj = Some (NextAttempt, s1, w1)"
  then show "trades_executed s1 = trades_executed s \<and> total_profit s1 = total_profit s
      \<and> semaphore s1 = semaphore s"
    using attempt_once_stats [of env tok act pm sl a sj wj NextAttempt s1 w1] by auto
next
  fix a sj wj b s1 w1
  assume "trades_executed sj = trades_executed s \<and> total_profit sj = total_profit s
      \<and> semaphore sj = semaphore s"
    and "attempt_once env tok act pm sl a sj wj = Some (Returned b, s1, w1)"
  then show "trades_executed s1 = trades_executed s + (if act = BUY \<and> b then 1 else 0)
     \<and> (total_profit s1 \<noteq> total_profit s \<longrightarrow> act = SELL \<and> b) \<and> semaphore s1 = semaphore s"
    using attempt_once_stats [of env tok act pm sl a sj wj "Returned b" s1 w1] by auto
next
  fix a sj wj
  assume "trades_executed sj = trades_executed s \<and> total_profit sj = total_profit s
      \<and> semaphore sj = semaphore s"
  then show "trades_executed sj = trades_executed s + (if act = BUY \<and> False then 1 else 0)
     \<and> (total_profit sj \<noteq> total_profit s \<longrightarrow> act = SELL \<and> False)
     \<and> semaphore sj = semaphore s"
    by simp
qed




lemma submit_swaps:
  assumes "submit env tok act ti params a s w = (f, s1, w1)"
  shows "\<exists>added. trace w1 = trace w @ added
     \<and> (\<forall>p k r. SwapGet p k r \<in> set added \<longrightarrow> p = params)"
proof -
  let ?sw = "SwapGet params (api_key s) (swap_at env (n_swap w))"
  have "\<exists>rest. trace w1 = trace w @ ?sw # rest \<and> (\<forall>p k r. SwapGet p k r \<notin> set rest)"
  proof (cases "swap_at env (n_swap w)")
    case (SwapRaised e)
    with assms show ?thesis by (auto simp: submit_def Let_def emit_def)
  next
    case (SwapUnsuccessful m)
    with assms show ?thesis by (auto simp: submit_def Let_def emit_def logger_def)
  next
    case (SwapUndecodable m)
    with assms show ?thesis by (auto simp: submit_def Let_def emit_def)
  next
    case (SwapTransaction tx)
    note sw = this
    show ?thesis
    proof (cases "send_at env (n_send w)")
      case (SendRaised e)
      with assms sw show ?thesis by (auto simp: submit_def Let_def emit_def)
    next
      case (SendError m)
      with assms sw show ?thesis
        by (auto simp: submit_def Let_def emit_def logger_def sleep_def split: if_splits)
    next
      case SendAccepted
      show ?thesis
      proof (cases act)
        case BUY
        with assms sw SendAccepted show ?thesis
          by (auto simp: submit_def Let_def emit_def settle_buy_eq split: if_splits)
      next
        case SELL
        show ?thesis
        proof (cases ti)
          case None
          with assms sw SendAccepted SELL show ?thesis
            by (auto simp: submit_def Let_def emit_def settle_sell_def get_token_price_def
                now_def)
        next
          case (Some t)
          with assms sw SendAccepted SELL show ?thesis
            by (auto simp: submit_def Let_def emit_def settle_sell_Some)
        qed
      qed
    qed
  qed
  then obtain rest where "trace w1 = trace w @ (?sw # rest)"
    "\<forall>p k r. SwapGet p k r \<in> set (?sw # rest) \<longrightarrow> p = params" by auto
  then show ?thesis by blast
qed

lemma buy_request_simps [simp]:
  "buy_request s tok Acquire" "buy_request s tok Release" "buy_request s tok (Sleep d)"
  "buy_request s tok (Log l m)" "buy_request s tok (GetSolBalance b)"
  by (simp_all add: buy_request_def)

lemma attempt_once_buy_requests:
  assumes "attempt_once env tok BUY pm sl a s w = Some (out, s', w')"
  shows "\<exists>added. trace w' = trace w @ added \<and> (\<forall>e\<in>set added. buy_request s tok e)"
proof -
  let ?s0 = "s\<lparr>semaphore := semaphore s - 1\<rparr>"
  let ?w0 = "emit Acquire w"
  let ?t = "time_at env (n_time w)"
  let ?b = "sol_balance_at env (n_sol w)"
  from assms have sem: "0 < semaphore s"
    by (simp add: attempt_once_def split: if_splits)
  obtain f s1 w1 where tb: "trade_body env tok BUY pm sl a ?s0 ?w0 = (f, s1, w1)"
    by (cases "trade_body env tok BUY pm sl a ?s0 ?w0")
  have body: "\<exists>added. trace w1 = trace w @ added \<and> (\<forall>e\<in>set added. buy_request s tok e)"
  proof -
    consider (cool) "?t < cooldown_end_time s"
      | (poor) "\<not> ?t < cooldown_end_time s" "?b < 1 / 10000"
      | (go) "\<not> ?t < cooldown_end_time s" "\<not> ?b < 1 / 10000" by blast
    then show ?thesis
    proof cases
      case cool
      with tb have "trace w1 = trace w @
          [Acquire, Log Info (CooldownActive (cooldown_end_time s - ?t))]"
        by (auto simp: trade_body_def now_def logger_def emit_def Let_def)
      then have "trace w1 = trace w @
          [Acquire, Log Info (CooldownActive (cooldown_end_time s - ?t))]
        \<and> (\<forall>e\<in>set [Acquire, Log Info (CooldownActive (cooldown_end_time s - ?t))].
              buy_request s tok e)" by simp
      then show ?thesis by blast
    next
      case poor
      with tb have "trace w1 = trace w @ [Acquire, GetSolBalance ?b, Log Error InsufficientSol]"
        by (auto simp: trade_body_def now_def get_sol_balance_def logger_def emit_def Let_def)
      then have "trace w1 = trace w @ [Acquire, GetSolBalance ?b, Log Error InsufficientSol]
        \<and> (\<forall>e\<in>set [Acquire, GetSolBalance ?b, Log Error InsufficientSol].
              buy_request s tok e)" by simp
      then show ?thesis by blast
    next
      case go
      let ?w2 = "?w0\<lparr>n_time := Suc (n_time w), n_sol := Suc (n_sol w),
          trace := trace ?w0 @ [GetSolBalance ?b]\<rparr>"
      from go tb have "submit env tok BUY None (buy_params s tok ?b) a (get_session ?s0) ?w2
          = (f, s1, w1)"
        by (simp add: trade_body_def now_def get_sol_balance_def emit_def Let_def)
      from submit_swaps [OF this] obtain added where
        ad: "trace w1 = trace ?w2 @ added"
          "\<forall>p k r. SwapGet p k r \<in> set added \<longrightarrow> p = buy_params s tok ?b" by blast
      have bp: "slippage (buy_params s tok ?b) = 3000
          \<and> priorityMicroLamports (buy_params s tok ?b) = 100000
          \<and> fromMint (buy_params s tok ?b) = sol_mint s
          \<and> toMint (buy_params s tok ?b) = tok"
        by (simp add: buy_params_def Let_def py_int_def)
      have "\<forall>e\<in>set added. buy_request s tok e"
        using ad(2) bp by (auto simp: buy_request_def)
      with ad(1) have "trace w1 = trace w @ ([Acquire, GetSolBalance ?b] @ added)
        \<and> (\<forall>e\<in>set ([Acquire, GetSolBalance ?b] @ added). buy_request s tok e)" by simp
      then show ?thesis by blast
    qed
  qed
  then obtain added where ad: "trace w1 = trace w @ added" "\<forall>e\<in>set added. buy_request s tok e"
    by blast
  show ?thesis
  proof (cases f)
    case (Return b)
    with assms sem tb have "w' = emit Release w1" by (simp add: attempt_once_def Let_def)
    with ad have "trace w' = trace w @ (added @ [Release])
        \<and> (\<forall>e\<in>set (added @ [Release]). buy_request s tok e)" by simp
    then show ?thesis by blast
  next
    case Continue
    with assms sem tb have "w' = emit Release w1" by (simp add: attempt_once_def Let_def)
    with ad have "trace w' = trace w @ (added @ [Release])
        \<and> (\<forall>e\<in>set (added @ [Release]). buy_request s tok e)" by simp
    then show ?thesis by blast
  next
    case (Raise e)
    with assms sem tb have h: "handle_exn e a (emit Release w1) = (out, w')"
      by (auto simp: attempt_once_def Let_def split: prod.splits)
    then have "\<exists>logs. trace w' = trace w1 @ Release # logs
        \<and> (\<forall>x\<in>set logs. buy_request s tok x)"
      by (cases e) (auto simp: handle_exn_def Let_def logger_def sleep_def split: if_splits)
    then obtain logs where "trace w' = trace w1 @ Release # logs"
      "\<forall>x\<in>set logs. buy_request s tok x" by blast
    with ad have "trace w' = trace w @ (added @ Release # logs)
        \<and> (\<forall>e\<in>set (added @ Release # logs). buy_request s tok e)" by auto
    then show ?thesis by blast
  qed
qed

lemma execute_trade_buy_requests:
  assumes "execute_trade env tok BUY pm sl s w = Some (ok, s', w')"
  shows "\<exists>added. trace w' = trace w @ added \<and> (\<forall>e\<in>set added. buy_request s tok e)"
proof (rule trade_loop_rule [OF assms [unfolded execute_trade_def],
    where I = "\<lambda>a sj wj. sol_mint sj = sol_mint s
      \<and> (\<exists>added. trace wj = trace w @ added \<and> (\<forall>e\<in>set added. buy_request s tok e))"])
  have "trace (w\<lparr>invocations := invocations w @ [(tok, BUY, pm, sl)]\<rparr>) = trace w @ []
      \<and> (\<forall>e\<in>set []. buy_request s tok e)" by simp
  then show "sol_mint s = sol_mint s
      \<and> (\<exists>added. trace (w\<lparr>invocations := invocations w @ [(tok, BUY, pm, sl)]\<rparr>) = trace w @ added
          \<and> (\<forall>e\<in>set added. buy_request s tok e))" by blast
next
  fix a sj wj out s1 w1
  assume I: "sol_mint sj = sol_mint s
      \<and> (\<exists>added. trace wj = trace w @ added \<and> (\<forall>e\<in>set added. buy_request s tok e))"
    and att: "attempt_once env tok BUY pm sl a sj wj = Some (NextAttempt, s1, w1)"
  from I obtain added where ad: "trace wj = trace w @ added"
    "\<forall>e\<in>set added. buy_request s tok e" by blast
  from attempt_once_buy_requests [OF att] obtain more where
    "trace w1 = trace wj @ more" "\<forall>e\<in>set more. buy_request sj tok e" by blast
  with ad I have "trace w1 = trace w @ (added @ more)
      \<and> (\<forall>e\<in>set (added @ more). buy_request s tok e)" by (auto simp: buy_request_def)
  then have "\<exists>added. trace w1 = trace w @ added \<and> (\<forall>e\<in>set added. buy_request s tok e)"
    by blast
  with attempt_once_config [OF att] I show "sol_mint s1 = sol_mint s
      \<and> (\<exists>added. trace w1 = trace w @ added \<and> (\<forall>e\<in>set added. buy_request s tok e))" by simp
next
  fix a sj wj b s1 w1
  assume I: "sol_mint sj = sol_mint s
      \<and> (\<exists>added. trace wj = trace w @ added \<and> (\<forall>e\<in>set added. buy_request s tok e))"
    and att: "attempt_once env tok BUY pm sl a sj wj = Some (Returned b, s1, w1)"
  from I obtain added where ad: "trace wj = trace w @ added"
    "\<forall>e\<in>set added. buy_request s tok e" by blast
  from attempt_once_buy_requests [OF att] obtain more where
    "trace w1 = trace wj @ more" "\<forall>e\<in>set more. buy_request sj tok e" by blast
  with ad I have "trace w1 = trace w @ (added @ more)
      \<and> (\<forall>e\<in>set (added @ more). buy_request s tok e)" by (auto simp: buy_request_def)
  then show "\<exists>added. trace w1 = trace w @ added \<and> (\<forall>e\<in>set added. buy_request s tok e)"
    by blast
next
  fix a sj wj
  assume "sol_mint sj = sol_mint s
      \<and> (\<exists>added. trace wj = trace w @ added \<and> (\<forall>e\<in>set added. buy_request s tok e))"
  then show "\<exists>added. trace wj = trace w @ added \<and> (\<forall>e\<in>set added. buy_request s tok e)"
    by blast
qed

lemma sell_schedule_zip: "sell_schedule = zip multipliers slippages"
  by (simp add: sell_schedule_def multipliers_def slippages_def)

lemma sell_schedule_nth:
  "rc < max_sell_retries \<Longrightarrow> sell_schedule ! rc = (multipliers ! rc, slippages ! rc)"
proof -
  assume "rc < max_sell_retries"
  then have "rc = 0 \<or> rc = 1 \<or> rc = 2 \<or> rc = 3" by (auto simp: max_sell_retries_def)
  then show ?thesis
    by (auto simp: sell_schedule_def multipliers_def slippages_def)
qed

lemma sell_loop_stop:
  "\<not> (rc < max_sell_retries \<and> truthy (current_position s)) \<Longrightarrow>
   sell_loop env tok rc s w = (Finished, s, w)"
  by (subst sell_loop.simps, rule if_not_P)

lemma sell_loop_go:
  "rc < max_sell_retries \<and> truthy (current_position s) \<Longrightarrow>
   sell_loop env tok rc s w =
     (case execute_trade env tok SELL (multipliers ! rc) (slippages ! rc) s w of
           None \<Rightarrow> (Blocked, s, w)
         | Some (success, s1, w1) \<Rightarrow>
             if success then (Finished, s1, w1)
             else
               (case verify_token_balance env tok 3 w1 of ((is_valid, _), w2) \<Rightarrow>
                  if \<not> is_valid then
                    (Finished, s1\<lparr>current_position := None\<rparr>, logger Error LostBalance w2)
                  else
                    sell_loop env tok (rc + 1) s1
                      (if rc + 1 < max_sell_retries then
                         sleep ((3 / 2) ^ (rc + 1))
                           (logger Info
                              (RetryingSell (multipliers ! (rc + 1))
                                 (of_int (slippages ! (rc + 1)) / 100)
                                 (rc + 1) max_sell_retries) w2)
                       else w2)))"
  by (subst sell_loop.simps, rule if_P)

lemma execute_trade_invocations:
  assumes "execute_trade env tok act pm sl s w = Some (ok, s', w')"
  shows "invocations w' = invocations w @ [(tok, act, pm, sl)]"
  using trade_loop_segments [OF assms [unfolded execute_trade_def]] by auto

lemma execute_trade_prefix:
  assumes "execute_trade env tok act pm sl s w = Some (ok, s', w')"
  shows "prefix (trace w) (trace w')"
  using trade_loop_segments [OF assms [unfolded execute_trade_def]] by (auto simp: prefix_def)

lemma verify_prefix: "prefix (trace w) (trace (snd (verify_token_balance env tok n w)))"
  using verify_calm [of env tok n w] by (auto simp: prefix_def)

lemma prefix_emit [simp]: "prefix xs (trace w) \<Longrightarrow> prefix xs (trace (emit e w))"
  by (auto simp: emit_def prefix_def)

lemma prefix_sleep [simp]: "prefix xs (trace w) \<Longrightarrow> prefix xs (trace (sleep d w))"
  by (simp add: sleep_def)

lemma prefix_logger [simp]: "prefix xs (trace w) \<Longrightarrow> prefix xs (trace (logger l m w))"
  by (simp add: logger_def)

lemma frame_sleep [simp]: "invocations (sleep d w) = invocations w"
  by (simp add: sleep_def)

lemma frame_logger [simp]: "invocations (logger l m w) = invocations w"
  by (simp add: logger_def)

lemma sell_loop_calls:
  "retry_count \<le> max_sell_retries \<Longrightarrow>
   \<exists>k. retry_count + k \<le> max_sell_retries
     \<and> invocations (snd (snd (sell_loop env tok retry_count s w))) =
         invocations w @ map (sell_call tok) (take k (drop retry_count sell_schedule))
     \<and> prefix (trace w) (trace (snd (snd (sell_loop env tok retry_count s w))))
     \<and> trades_executed (fst (snd (sell_loop env tok retry_count s w))) = trades_executed s"
proof (induction env tok retry_count s w rule: sell_loop.induct)
  case (1 env tok rc s w)
  let ?res = "sell_loop env tok rc s w"
  let ?goal = "\<lambda>res. \<exists>k. rc + k \<le> max_sell_retries
     \<and> invocations (snd (snd res)) =
         invocations w @ map (sell_call tok) (take k (drop rc sell_schedule))
     \<and> prefix (trace w) (trace (snd (snd res)))
     \<and> trades_executed (fst (snd res)) = trades_executed s"
  have none: "?goal (st, s, w)" for st :: status
    using "1.prems" by (intro exI [of _ 0]) simp
  show ?case
  proof (cases "rc < max_sell_retries \<and> truthy (current_position s)")
    case False
    then have "?res = (Finished, s, w)" by (rule sell_loop_stop)
    with none show ?thesis by simp
  next
    case True
    note guard = this
    then have rc: "rc < max_sell_retries" by simp
    have one: "take 1 (drop rc sell_schedule) = [(multipliers ! rc, slippages ! rc)]"
      using rc sell_schedule_nth [OF rc]
      by (simp add: take_Suc_conv_app_nth sell_schedule_def max_sell_retries_def)
    show ?thesis
    proof (cases "execute_trade env tok SELL (multipliers ! rc) (slippages ! rc) s w")
      case None
      with guard have "?res = (Blocked, s, w)" by (simp add: sell_loop_go)
      with none show ?thesis by simp
    next
      case (Some r)
      obtain success s1 w1 where r: "r = (success, s1, w1)" by (cases r)
      note ex = Some [unfolded r]
      have inv1: "invocations w1 = invocations w @ [(tok, SELL, multipliers ! rc, slippages ! rc)]"
        using execute_trade_invocations [OF ex] .
      have pre1: "prefix (trace w) (trace w1)" using execute_trade_prefix [OF ex] .
      have te1: "trades_executed s1 = trades_executed s"
        using execute_trade_stats [OF ex] by simp
      have done1: "?goal (st, s1\<lparr>current_position := cp\<rparr>, w2)"
        if "invocations w2 = invocations w1" "prefix (trace w1) (trace w2)"
        for st :: status and cp w2
      proof -
        have "rc + 1 \<le> max_sell_retries
          \<and> invocations w2 = invocations w @ map (sell_call tok) (take 1 (drop rc sell_schedule))
          \<and> prefix (trace w) (trace w2)
          \<and> trades_executed (s1\<lparr>current_position := cp\<rparr>) = trades_executed s"
          using rc that inv1 pre1 te1 unfolding one by (auto simp: sell_call_def)
        then show ?thesis by (intro exI [of _ 1]) simp
      qed
      show ?thesis
      proof (cases success)
        case True
        with guard ex have "?res = (Finished, s1, w1)" by (simp add: sell_loop_go)
        moreover have "?goal (Finished, s1\<lparr>current_position := current_position s1\<rparr>, w1)"
          by (rule done1) simp_all
        ultimately show ?thesis by simp
      next
        case False
        note fail = this
        obtain v ti w2 where vr: "verify_token_balance env tok 3 w1 = ((v, ti), w2)"
          by (cases "verify_token_balance env tok 3 w1") auto
        have w2: "invocations w2 = invocations w1" "prefix (trace w1) (trace w2)"
          using verify_frame(1) [of env tok 3 w1] verify_prefix [of w1 env tok 3] vr by simp_all
        show ?thesis
        proof (cases v)
          case False
          with guard ex fail vr have "?res =
              (Finished, s1\<lparr>current_position := None\<rparr>, logger Error LostBalance w2)"
            by (simp add: sell_loop_go)
          moreover have "?goal (Finished, s1\<lparr>current_position := None\<rparr>,
              logger Error LostBalance w2)"
            using w2 by (intro done1) simp_all
          ultimately show ?thesis by simp
        next
          case True
          let ?w3 = "if rc + 1 < max_sell_retries then
                         sleep ((3 / 2) ^ (rc + 1))
                           (logger Info
                              (RetryingSell (multipliers ! (rc + 1))
                                 (of_int (slippages ! (rc + 1)) / 100)
                                 (rc + 1) max_sell_retries) w2)
                       else w2"
          have w3: "invocations ?w3 = invocations w1" "prefix (trace w1) (trace ?w3)"
            using w2 by simp_all
          from guard ex fail vr True have res: "?res = sell_loop env tok (rc + 1) s1 ?w3"
            by (simp add: sell_loop_go)
          from rc have "rc + 1 \<le> max_sell_retries" by simp
          from "1.IH" [OF guard ex refl refl fail vr [symmetric] refl _ this] True
          obtain k where k: "rc + 1 + k \<le> max_sell_retries"
            "invocations (snd (snd (sell_loop env tok (rc + 1) s1 ?w3))) =
               invocations ?w3 @ map (sell_call tok) (take k (drop (rc + 1) sell_schedule))"
            "prefix (trace ?w3) (trace (snd (snd (sell_loop env tok (rc + 1) s1 ?w3))))"
            "trades_executed (fst (snd (sell_loop env tok (rc + 1) s1 ?w3))) = trades_executed s1"
            by auto
          have len: "rc < length sell_schedule"
            using rc by (simp add: sell_schedule_def max_sell_retries_def)
          have tk: "take (Suc k) (drop rc sell_schedule) =
              (multipliers ! rc, slippages ! rc) # take k (drop (rc + 1) sell_schedule)"
            using Cons_nth_drop_Suc [OF len] sell_schedule_nth [OF rc]
            by (metis Suc_eq_plus1 take_Suc_Cons)
          have "rc + Suc k \<le> max_sell_retries
            \<and> invocations (snd (snd ?res)) =
               invocations w @ map (sell_call tok) (take (Suc k) (drop rc sell_schedule))
            \<and> prefix (trace w) (trace (snd (snd ?res)))
            \<and> trades_executed (fst (snd ?res)) = trades_executed s"
            using k w3 inv1 pre1 te1 unfolding res tk
            by (auto simp: sell_call_def intro: prefix_order.trans)
          then show ?thesis by blast
        qed
      qed
    qed
  qed
qed

lemma exit_position_calls:
  "\<exists>k rest. k \<le> max_sell_retries
     \<and> invocations (snd (snd (exit_position env tok reason s w))) =
         invocations w @ map (sell_call tok) (take k sell_schedule)
     \<and> trace (snd (snd (exit_position env tok reason s w))) =
         trace w @ Log Info (ExitTriggered reason) # rest
     \<and> trades_executed (fst (snd (exit_position env tok reason s w))) = trades_executed s"
proof -
  let ?w0 = "logger Info (ExitTriggered reason) w"
  have t0: "trace ?w0 = trace w @ [Log Info (ExitTriggered reason)]" by (simp add: logger_def)
  obtain v ti w1 where v1: "verify_token_balance env tok 3 ?w0 = ((v, ti), w1)"
    by (cases "verify_token_balance env tok 3 ?w0") auto
  have w1: "invocations w1 = invocations w" "prefix (trace ?w0) (trace w1)"
    using verify_frame(1) [of env tok 3 ?w0] verify_prefix [of ?w0 env tok 3] v1 by simp_all
  let ?w1' = "sleep 2 (logger Error VerifyFailedForSale w1)"
  obtain v2 ti2 w2 where v2: "verify_token_balance env tok 3 ?w1' = ((v2, ti2), w2)"
    by (cases "verify_token_balance env tok 3 ?w1'") auto
  have w2: "invocations w2 = invocations w" "prefix (trace ?w0) (trace w2)"
    using verify_frame(1) [of env tok 3 ?w1'] verify_prefix [of ?w1' env tok 3] v2 w1
    by (auto intro: prefix_order.trans [of _ "trace ?w1'"])
  have sell: "\<exists>k rest. k \<le> max_sell_retries
     \<and> invocations (snd (snd (sell_loop env tok 0 s wx))) =
         invocations w @ map (sell_call tok) (take k sell_schedule)
     \<and> trace (snd (snd (sell_loop env tok 0 s wx))) =
         trace w @ Log Info (ExitTriggered reason) # rest
     \<and> trades_executed (fst (snd (sell_loop env tok 0 s wx))) = trades_executed s"
    if "invocations wx = invocations w" "prefix (trace ?w0) (trace wx)" for wx
  proof -
    from sell_loop_calls [of 0 env tok s wx] obtain k where
      k: "k \<le> max_sell_retries"
        "invocations (snd (snd (sell_loop env tok 0 s wx))) =
           invocations wx @ map (sell_call tok) (take k sell_schedule)"
        "prefix (trace wx) (trace (snd (snd (sell_loop env tok 0 s wx))))"
        "trades_executed (fst (snd (sell_loop env tok 0 s wx))) = trades_executed s"
      by auto
    from that(2) k(3) have "prefix (trace ?w0) (trace (snd (snd (sell_loop env tok 0 s wx))))"
      by (rule prefix_order.trans)
    then obtain rest where "trace (snd (snd (sell_loop env tok 0 s wx))) =
        trace w @ Log Info (ExitTriggered reason) # rest"
      unfolding t0 by (auto simp: prefix_def)
    with k that(1) show ?thesis by auto
  qed
  show ?thesis
  proof (cases v)
    case True
    with v1 have "exit_position env tok reason s w = sell_loop env tok 0 s w1"
      by (simp add: exit_position_def)
    with sell [OF w1] show ?thesis by simp
  next
    case False
    note nv = this
    show ?thesis
    proof (cases v2)
      case True
      with nv v1 v2 have "exit_position env tok reason s w = sell_loop env tok 0 s w2"
        by (simp add: exit_position_def)
      with sell [OF w2] show ?thesis by simp
    next
      case False
      with nv v1 v2 have e: "exit_position env tok reason s w =
          (Finished, s\<lparr>current_position := None\<rparr>, logger Error VerifyFailedAfterRetry w2)"
        by (simp add: exit_position_def)
      from w2(2) obtain rest where "trace w2 = trace w @ Log Info (ExitTriggered reason) # rest"
        unfolding t0 by (auto simp: prefix_def)
      then have "0 \<le> max_sell_retries
        \<and> invocations (snd (snd (exit_position env tok reason s w))) =
           invocations w @ map (sell_call tok) (take 0 sell_schedule)
        \<and> trace (snd (snd (exit_position env tok reason s w))) =
           trace w @ Log Info (ExitTriggered reason) # (rest @ [Log Error VerifyFailedAfterRetry])
        \<and> trades_executed (fst (snd (exit_position env tok reason s w))) = trades_executed s"
        using w2(1) unfolding e by (simp add: logger_def)
      then show ?thesis by blast
    qed
  qed
qed

lemma monitor_loop_calls:
  "\<exists>k. k \<le> max_sell_retries
     \<and> invocations (snd (snd (monitor_loop fuel env tok s w))) =
         invocations w @ map (sell_call tok) (take k sell_schedule)
     \<and> prefix (trace w) (trace (snd (snd (monitor_loop fuel env tok s w))))
     \<and> trades_executed (fst (snd (monitor_loop fuel env tok s w))) = trades_executed s"
proof (induction fuel arbitrary: w)
  case 0
  show ?case by (intro exI [of _ 0]) simp
next
  case (Suc fuel)
  let ?goal = "\<lambda>res. \<exists>k. k \<le> max_sell_retries
     \<and> invocations (snd (snd res)) = invocations w @ map (sell_call tok) (take k sell_schedule)
     \<and> prefix (trace w) (trace (snd (snd res)))
     \<and> trades_executed (fst (snd res)) = trades_executed s"
  have again: "?goal (monitor_loop fuel env tok s wx)"
    if "invocations wx = invocations w" "prefix (trace w) (trace wx)" for wx
  proof -
    from Suc.IH [of wx] obtain k where "k \<le> max_sell_retries"
      "invocations (snd (snd (monitor_loop fuel env tok s wx))) =
         invocations wx @ map (sell_call tok) (take k sell_schedule)"
      "prefix (trace wx) (trace (snd (snd (monitor_loop fuel env tok s wx))))"
      "trades_executed (fst (snd (monitor_loop fuel env tok s wx))) = trades_executed s"
      by blast
    with that show ?thesis by (auto intro: prefix_order.trans)
  qed
  let ?p = "price_at env (n_price w)"
  let ?w1 = "emit (GetTokenPrice tok ?p) (w\<lparr>n_price := Suc (n_price w)\<rparr>)"
  have g: "get_token_price env tok w = (?p, ?w1)" by (simp add: get_token_price_def)
  have w1: "invocations ?w1 = invocations w" "prefix (trace w) (trace ?w1)"
    by (simp_all add: emit_def prefix_def)
  let ?w2 = "?w1\<lparr>n_time := Suc (n_time ?w1)\<rparr>"
  have n: "now env ?w1 = (time_at env (n_time w), ?w2)" by (simp add: now_def)
  have w2: "invocations ?w2 = invocations w" "prefix (trace w) (trace ?w2)"
    by (simp_all add: emit_def prefix_def)
  show ?case
  proof (cases "current_position s \<noteq> Some tok")
    case True
    then have "monitor_loop (Suc fuel) env tok s w = (Finished, s, w)" by simp
    then show ?thesis by (intro exI [of _ 0]) simp
  next
    case False
    note held = this
    show ?thesis
    proof (cases "?p = 0")
      case True
      with held g have "monitor_loop (Suc fuel) env tok s w =
          monitor_loop fuel env tok s (sleep 2 ?w1)" by simp
      moreover have "?goal (monitor_loop fuel env tok s (sleep 2 ?w1))"
        using w1 by (intro again) simp_all
      ultimately show ?thesis by simp
    next
      case False
      note price = this
      show ?thesis
      proof (cases "profit_pct ?p (buy_price s)")
        case (Inl e)
        let ?wx = "sleep 5 (logger Error (MonitoringError (message e)) ?w1)"
        from held g price Inl have "monitor_loop (Suc fuel) env tok s w =
            monitor_loop fuel env tok s ?wx" by simp
        moreover have "?goal (monitor_loop fuel env tok s ?wx)"
          using w1 by (intro again) simp_all
        ultimately show ?thesis by simp
      next
        case (Inr pct)
        show ?thesis
        proof (cases "position_open_time s")
          case None
          let ?wx = "sleep 5 (logger Error (MonitoringError ''TypeError'') ?w2)"
          from held g price Inr n None have "monitor_loop (Suc fuel) env tok s w =
              monitor_loop fuel env tok s ?wx" by simp
          moreover have "?goal (monitor_loop fuel env tok s ?wx)"
            using w2 by (intro again) simp_all
          ultimately show ?thesis by simp
        next
          case (Some opened)
          show ?thesis
          proof (cases "exit_reason_of pct (time_at env (n_time w) - opened)")
            case None
            from held g price Inr n Some None have "monitor_loop (Suc fuel) env tok s w =
                monitor_loop fuel env tok s (sleep 2 ?w2)" by simp
            moreover have "?goal (monitor_loop fuel env tok s (sleep 2 ?w2))"
              using w2 by (intro again) simp_all
            ultimately show ?thesis by simp
          next
            case (Some reason)
            from held g price Inr n \<open>position_open_time s = Some opened\<close> Some
            have e: "monitor_loop (Suc fuel) env tok s w = exit_position env tok reason s ?w2"
              by simp
            from exit_position_calls [of env tok reason s ?w2] obtain k rest where
              "k \<le> max_sell_retries"
              "invocations (snd (snd (exit_position env tok reason s ?w2))) =
                 invocations ?w2 @ map (sell_call tok) (take k sell_schedule)"
              "trace (snd (snd (exit_position env tok reason s ?w2))) =
                 trace ?w2 @ Log Info (ExitTriggered reason) # rest"
              "trades_executed (fst (snd (exit_position env tok reason s ?w2))) = trades_executed s"
              by blast
            then show ?thesis unfolding e using w2 by (auto simp: prefix_def emit_def)
          qed
        qed
      qed
    qed
  qed
qed


subsection \<open>The executor\<close>

lemmas run_defs = execute_trade_def max_retries_def retry_delay_def attempt_once_def
  trade_body_def verify_token_balance_def get_token_account_info_def submit_def
  settle_buy_def settle_sell_def handle_exn_def is_transient_def transient_messages_def
  sublist_code prefix_code buy_params_def sell_params_def py_int_def now_def
  get_sol_balance_def get_token_price_def emit_def sleep_def logger_def get_session_def
  script_def bot0_def world0_def reading_def numeral_eq_Suc Let_def


lemma monitor_run:
  "invocations (snd (snd (monitor_token 1 failing_swap_env ''T'' holding_bot world0))) =
     [(''T'', SELL, 1, 2000), (''T'', SELL, 3 / 2, 3000),
        (''T'', SELL, 2, 4000), (''T'', SELL, 3, 5000)]"
  by (simp add: run_defs failing_swap_env_def market_env_def holding_bot_def monitor_token_def
      exit_position_def sell_loop.simps profit_pct_def exit_reason_of_def truthy_def
      max_sell_retries_def multipliers_def slippages_def)





text \<open>
  Claim C9. Two BUY calls that differ only in \<^verbatim>\<open>priority_multiplier\<close> and
  \<^verbatim>\<open>slippage_bps\<close> return the same result, leave the same bot and do the same things in
  the same order (the worlds differ in the note of the call only). Every swap request of a
  BUY has slippage 3000 and a priority fee of 100000 micro-lamports, from the SOL mint to
  the token.
\<close>


theorem buy_ignores_priority_and_slippage:
  "map_option (\<lambda>(ok, s', w'). (ok, s', forget w')) (execute_trade env tok BUY pm sl s w) =
   map_option (\<lambda>(ok, s', w'). (ok, s', forget w')) (execute_trade env tok BUY pm' sl' s w)
   \<and> (\<forall>ok s' w'. execute_trade env tok BUY pm sl s w = Some (ok, s', w') \<longrightarrow>
        (\<exists>added. trace w' = trace w @ added \<and> (\<forall>e\<in>set added. buy_request s tok e)))"
  using execute_trade_buy_independent [of env tok pm sl s w pm' sl']
    execute_trade_buy_requests [of env tok pm sl s w] by blast

lemma market_buy_run:
  "execute_trade market_env ''T'' BUY pm sl bot0 world0 =
     Some (True,
       bot0\<lparr>current_position := Some ''T'', position_open_time := Some 100, buy_price := 2,
         session := SessionOpen, trades_executed := 1\<rparr>,
       world0\<lparr>n_time := 2, n_sol := 1, n_price := 1, n_swap := 1, n_send := 1,
         trace :=
           [Acquire, GetSolBalance 1,
            SwapGet buy_request_ok ''K'' (SwapTransaction ''tx''),
            SendTransaction ''tx'' SendAccepted, GetTokenPrice ''T'' 2,
            Log Info (Bought ''T'' 2), Release],
         invocations := [(''T'', BUY, pm, sl)]\<rparr>)"
  by (simp add: run_defs market_env_def buy_request_ok_def)

text \<open>A buy with the arguments (1, 2000) and with (3, 5000), in the working environment.\<close>

theorem buy_ignores_priority_and_slippage_witness:
  "map_option (\<lambda>(ok, s', w'). (ok, s', forget w'))
     (execute_trade market_env ''T'' BUY 1 2000 bot0 world0) =
   map_option (\<lambda>(ok, s', w'). (ok, s', forget w'))
     (execute_trade market_env ''T'' BUY 3 5000 bot0 world0)
   \<and> (\<exists>added. [Acquire, GetSolBalance 1,
            SwapGet buy_request_ok ''K'' (SwapTransaction ''tx''),
            SendTransaction ''tx'' SendAccepted, GetTokenPrice ''T'' 2,
            Log Info (Bought ''T'' 2), Release] = added
        \<and> buy_request bot0 ''T'' (SwapGet buy_request_ok ''K'' (SwapTransaction ''tx'')))"
proof -
  note t = buy_ignores_priority_and_slippage [of market_env "''T''" 1 2000 bot0 world0 3 5000]
  from t [THEN conjunct2, rule_format, OF market_buy_run]
  obtain added where "trace (world0\<lparr>n_time := 2, n_sol := 1, n_price := 1, n_swap := 1,
         n_send := 1,
         trace :=
           [Acquire, GetSolBalance 1,
            SwapGet buy_request_ok ''K'' (SwapTransaction ''tx''),
            SendTransaction ''tx'' SendAccepted, GetTokenPrice ''T'' 2,
            Log Info (Bought ''T'' 2), Release],
         invocations := [(''T'', BUY, 1, 2000)]\<rparr>) = trace world0 @ added"
    "\<forall>e\<in>set added. buy_request bot0 ''T'' e" by blast
  then have "[Acquire, GetSolBalance 1,
            SwapGet buy_request_ok ''K'' (SwapTransaction ''tx''),
            SendTransaction ''tx'' SendAccepted, GetTokenPrice ''T'' 2,
            Log Info (Bought ''T'' 2), Release] = added
        \<and> buy_request bot0 ''T'' (SwapGet buy_request_ok ''K'' (SwapTransaction ''tx''))"
    by (auto simp: world0_def)
  with t [THEN conjunct1] show ?thesis by blast
qed


lemma market_sell_run:
  "execute_trade market_env ''T'' SELL 1 2000 holding_bot world0 =
     Some (True,
       holding_bot\<lparr>current_position := None, position_open_time := None,
         cooldown_end_time := 115, total_profit := 100\<rparr>,
       world0\<lparr>n_time := 1, n_info := 3, n_price := 1, n_swap := 1, n_send := 1,
         trace :=
           [Acquire, GetTokenAccountInfo ''T'' (Some (reading 100)),
            GetTokenAccountInfo ''T'' (Some (reading 100)),
            GetTokenAccountInfo ''T'' (Some (reading 100)),
            SwapGet \<lparr>fromMint = ''T'', toMint = ''SOL'', amount = 100, slippage = 2000,
              priorityMicroLamports = 100000, owner = ''W'', provider = ''raydium''\<rparr>
              ''K'' (SwapTransaction ''tx''),
            SendTransaction ''tx'' SendAccepted, GetTokenPrice ''T'' 2,
            Log Info (Sold ''T'' 100), Release],
         invocations := [(''T'', SELL, 1, 2000)]\<rparr>)"
  by (simp add: run_defs market_env_def holding_bot_def)



subsection \<open>Statistics and the monitor\<close>

text \<open>
  Claim C6, as amended. A call of \<^verbatim>\<open>execute_trade\<close> adds one to \<^verbatim>\<open>trades_executed\<close>
  when it is a BUY that returns \<^verbatim>\<open>True\<close> and leaves it alone otherwise; it changes
  \<^verbatim>\<open>total_profit\<close> only when it is a SELL that returns \<^verbatim>\<open>True\<close>. The monitor, which
  only sells, leaves \<^verbatim>\<open>trades_executed\<close> as it was. (The verifier does not touch the
  bot at all.)
\<close>


theorem statistics_changes:
  "(\<forall>ok s' w'. execute_trade env tok act pm sl s w = Some (ok, s', w') \<longrightarrow>
       trades_executed s' = trades_executed s + (if act = BUY \<and> ok then 1 else 0)
     \<and> (total_profit s' \<noteq> total_profit s \<longrightarrow> act = SELL \<and> ok))
   \<and> trades_executed (fst (snd (monitor_token fuel env tok s w))) = trades_executed s"
proof -
  have "trades_executed (fst (snd (monitor_token fuel env tok s w))) = trades_executed s"
    using monitor_loop_calls [of fuel env tok s w] unfolding monitor_token_def by blast
  then show ?thesis using execute_trade_stats [of env tok act pm sl s w] by blast
qed

text \<open>A successful sell: the count stays, the profit changes.\<close>

theorem statistics_changes_witness:
  "execute_trade market_env ''T'' SELL 1 2000 holding_bot world0 =
     Some (True,
       holding_bot\<lparr>current_position := None, position_open_time := None,
         cooldown_end_time := 115, total_profit := 100\<rparr>,
       world0\<lparr>n_time := 1, n_info := 3, n_price := 1, n_swap := 1, n_send := 1,
         trace :=
           [Acquire, GetTokenAccountInfo ''T'' (Some (reading 100)),
            GetTokenAccountInfo ''T'' (Some (reading 100)),
            GetTokenAccountInfo ''T'' (Some (reading 100)),
            SwapGet \<lparr>fromMint = ''T'', toMint = ''SOL'', amount = 100, slippage = 2000,
              priorityMicroLamports = 100000, owner = ''W'', provider = ''raydium''\<rparr>
              ''K'' (SwapTransaction ''tx''),
            SendTransaction ''tx'' SendAccepted, GetTokenPrice ''T'' 2,
            Log Info (Sold ''T'' 100), Release],
         invocations := [(''T'', SELL, 1, 2000)]\<rparr>)
   \<and> trades_executed (holding_bot\<lparr>current_position := None, position_open_time := None,
         cooldown_end_time := 115, total_profit := 100\<rparr>) = trades_executed holding_bot
   \<and> total_profit (holding_bot\<lparr>current_position := None, position_open_time := None,
         cooldown_end_time := 115, total_profit := 100\<rparr>) \<noteq> total_profit holding_bot"
proof -
  from statistics_changes [of market_env "''T''" SELL 1 2000 holding_bot world0,
      THEN conjunct1, rule_format, OF market_sell_run]
  have "trades_executed (holding_bot\<lparr>current_position := None, position_open_time := None,
         cooldown_end_time := 115, total_profit := 100\<rparr>) = trades_executed holding_bot"
    by simp
  moreover have "total_profit (holding_bot\<lparr>current_position := None,
         position_open_time := None, cooldown_end_time := 115, total_profit := 100\<rparr>)
      \<noteq> total_profit holding_bot"
    by (simp add: holding_bot_def bot0_def)
  ultimately show ?thesis using market_sell_run by blast
qed

text \<open>
  Claim C6 as first stated fails: a successful buy changes \<^verbatim>\<open>trades_executed\<close> from 0
  to 1.
\<close>

theorem buy_counts_trade_counterexample:
  "fst (the (execute_trade market_env ''T'' BUY 1 2000 bot0 world0)) = True
   \<and> trades_executed bot0 = 0
   \<and> trades_executed (fst (snd (the (execute_trade market_env ''T'' BUY 1 2000 bot0 world0))))
       = 1"
  by (simp add: market_buy_run) (simp add: bot0_def)

text \<open>
  Claim C7. Whatever the environment and however long the monitor runs, the calls of
  \<^verbatim>\<open>execute_trade\<close> it makes are SELL calls for its token with, in order, the first
  \<open>k\<close> pairs of the schedule (1.0, 2000), (1.5, 3000), (2.0, 4000), (3.0, 5000), for some
  \<open>k\<close> up to 4: call number \<open>k\<close> uses pair number \<open>k\<close>, and there is no fifth.
\<close>


theorem sell_escalation_schedule:
  "\<exists>k\<le>4. invocations (snd (snd (monitor_token fuel env tok s w))) =
       invocations w @
       map (\<lambda>(multiplier, slippage_bps). (tok, SELL, multiplier, slippage_bps))
         (take k [(1, 2000), (3 / 2, 3000), (2, 4000), (3, 5000)])"
proof -
  from monitor_loop_calls [of fuel env tok s w] obtain k where
    "k \<le> max_sell_retries"
    "invocations (snd (snd (monitor_loop fuel env tok s w))) =
         invocations w @ map (sell_call tok) (take k sell_schedule)" by blast
  moreover have "sell_call tok = (\<lambda>(multiplier, slippage_bps). (tok, SELL, multiplier, slippage_bps))"
    by (auto simp: sell_call_def fun_eq_iff)
  ultimately show ?thesis
    unfolding monitor_token_def sell_schedule_def max_sell_retries_def by auto
qed

text \<open>With a gateway that refuses every swap, all four pairs are used.\<close>

theorem sell_escalation_schedule_witness:
  "(\<exists>k\<le>4. invocations (snd (snd (monitor_token 1 failing_swap_env ''T'' holding_bot world0))) =
       invocations world0 @
       map (\<lambda>(multiplier, slippage_bps). (''T'', SELL, multiplier, slippage_bps))
         (take k [(1, 2000), (3 / 2, 3000), (2, 4000), (3, 5000)]))
   \<and> invocations (snd (snd (monitor_token 1 failing_swap_env ''T'' holding_bot world0))) =
     [(''T'', SELL, 1, 2000), (''T'', SELL, 3 / 2, 3000),
        (''T'', SELL, 2, 4000), (''T'', SELL, 3, 5000)]"
  by (rule conjI [OF sell_escalation_schedule monitor_run])






end
